theory Spec2Isabelle
  imports Complex_Main "HOL-Library.Multiset" "HOL-Library.Log_Nat"
begin

section \<open>Chunked transcription: data model\<close>

text \<open>
  A shallow embedding of the chunked-transcription pipeline of the repository
  (\<^verbatim>\<open>src/utils/audio.ts\<close>, \<^verbatim>\<open>src/transcriber.ts\<close>, \<^verbatim>\<open>src/config.ts\<close>,
  \<^verbatim>\<open>src/providers/google-speech.ts\<close>, \<^verbatim>\<open>src/providers/vertex-ai.ts\<close>).

  JavaScript numbers that carry times, durations and confidences are modelled as
  rationals (\<^typ>\<open>rat\<close>). The loop of the segmenter is given twice: over exact
  numbers, and with every sum and difference rounded to binary64 as the source computes
  it; the sums of the offset adjustment and of the merge are exact. NaN, infinities and
  signed zeros are outside the model. Counters (chunk indices, retry counts, batch sizes)
  are natural numbers.
  Every \<^verbatim>\<open>throw\<close> and every rejected promise is a value \<open>Inl e\<close>; a loop of the
  source that may run forever yields \<open>None\<close>.
\<close>

type_synonym Buffer = string

datatype error =
    AudioError string
  | ConfigurationError string
  | TranscriptionFailed string
  | ChunkTranscriptionFailed string
  | TypeError string
  | AllChunksFailed

text \<open>
  \<open>AudioError\<close> carries the message of a rejected \<^verbatim>\<open>ffmpeg\<close>, \<^verbatim>\<open>ffprobe\<close> or
  \<^verbatim>\<open>fs\<close> call; \<open>ConfigurationError\<close> is thrown by \<^verbatim>\<open>validateConfig\<close>;
  \<open>TranscriptionFailed\<close> and \<open>ChunkTranscriptionFailed\<close> are the errors the providers
  wrap a failed remote call in; \<open>AllChunksFailed\<close> is
  \<^verbatim>\<open>new Error('All chunks failed to transcribe')\<close>.
\<close>

datatype AudioEncoding =
    ENCODING_UNSPECIFIED | LINEAR16 | FLAC | MULAW | AMR | AMR_WB | OGG_OPUS
  | SPEEX_WITH_HEADER_BYTE | MP3 | WEBM_OPUS

datatype OutputFormat = JSON | SRT | VTT | TXT | CSV

datatype ProviderName = google_speech | vertex_ai

record TranscriptionConfig =
  provider :: ProviderName
  languageCode :: string
  encoding :: "AudioEncoding option"
  sampleRateHertz :: "nat option"
  model :: "string option"

text \<open>
  The remaining optional fields of \<^verbatim>\<open>TranscriptionConfig\<close> are recognition hints that the
  providers copy into the request; the remote call below receives the whole configuration.
\<close>

record WordInfo =
  word :: string
  startTime :: rat
  endTime :: rat
  confidence :: "rat option"
  speakerTag :: "rat option"

record Alternative =
  transcript :: string
  confidence :: "rat option"
  words :: "WordInfo list option"

record TranscriptionResult =
  transcript :: string
  words :: "WordInfo list option"
  alternatives :: "Alternative list option"
  languageCode :: "string option"
  confidence :: "rat option"

record AudioChunk =
  buffer :: Buffer
  startTime :: rat
  endTime :: rat
  index :: nat

section \<open>The segmenter: \<^verbatim>\<open>AudioProcessor.splitAudioIntoChunks\<close>\<close>

text \<open>
  The audio collaborators the segmenter calls are parameters: \<open>getAudioDuration\<close> is
  \<^verbatim>\<open>ffprobe\<close> (it resolves to \<^verbatim>\<open>metadata.format.duration || 0\<close> or rejects), and
  \<open>extractChunk audioPath startTime duration chunkIndex\<close> stands for the
  \<^verbatim>\<open>ffmpeg\<close> extraction into \<^verbatim>\<open>chunk_<chunkIndex>.wav\<close> followed by
  \<^verbatim>\<open>fs.readFileSync\<close> of that file; either may fail.
\<close>

record AudioEnv =
  validateAudioFile :: "string \<Rightarrow> error option"
  extractAudio :: "string \<Rightarrow> error + string"
  detectEncoding :: "string \<Rightarrow> AudioEncoding"
  getAudioDuration :: "string \<Rightarrow> error + rat"
  extractChunk :: "string \<Rightarrow> rat \<Rightarrow> rat \<Rightarrow> nat \<Rightarrow> error + Buffer"

text \<open>
  The \<^verbatim>\<open>while (currentTime < duration)\<close> loop, here with exact sums and differences;
  the loop with the rounding of the source follows. Its state is \<open>currentTime\<close>,
  \<open>chunkIndex\<close> and the array \<open>chunks\<close>; nothing in the source bounds the number of
  iterations, so the loop is a partial function.
\<close>

partial_function (option) splitLoop ::
  "(rat \<Rightarrow> rat \<Rightarrow> nat \<Rightarrow> error + Buffer) \<Rightarrow> rat \<Rightarrow> rat \<Rightarrow> rat \<Rightarrow> rat \<Rightarrow> nat
     \<Rightarrow> AudioChunk list \<Rightarrow> (error + AudioChunk list) option"
where
  "splitLoop extract duration chunkDuration overlap currentTime chunkIndex chunks =
     (if currentTime < duration then
        (let startTime = max 0 (currentTime - overlap);
             chunkLength = min chunkDuration (duration - startTime)
         in case extract startTime chunkLength chunkIndex of
              Inl e \<Rightarrow> Some (Inl e)
            | Inr buf \<Rightarrow>
                splitLoop extract duration chunkDuration overlap
                  (currentTime + (chunkDuration - overlap)) (chunkIndex + 1)
                  (chunks @ [\<lparr> buffer = buf, startTime = startTime,
                               endTime = startTime + chunkLength, index = chunkIndex \<rparr>]))
      else Some (Inr chunks))"

definition splitAudioIntoChunks ::
  "AudioEnv \<Rightarrow> string \<Rightarrow> rat option \<Rightarrow> rat option \<Rightarrow> (error + AudioChunk list) option"
where
  "splitAudioIntoChunks A audioPath chunkDurationArg overlapArg =
     (let chunkDuration = (case chunkDurationArg of None \<Rightarrow> 59 | Some v \<Rightarrow> v);
          overlap = (case overlapArg of None \<Rightarrow> 1 | Some v \<Rightarrow> v)
      in case getAudioDuration A audioPath of
           Inl e \<Rightarrow> Some (Inl e)
         | Inr duration \<Rightarrow>
             splitLoop (extractChunk A audioPath) duration chunkDuration overlap 0 0 [])"

declare splitLoop.simps [code]

subsection \<open>The loop in binary64 arithmetic\<close>

text \<open>
  The numbers of the source are IEEE 754 binary64 numbers, and each \<^verbatim>\<open>+\<close> and
  \<^verbatim>\<open>-\<close> yields the binary64 number nearest to the exact result, ties going to the even
  significand. \<open>round64\<close> is this rounding on the rationals: \<open>exponent64 x\<close> is the
  exponent \<open>e\<close> with \<open>2\<^sup>e \<le> \<bar>x\<bar> < 2\<^sup>e\<^sup>+\<^sup>1\<close>, and \<open>-1022\<close> for the smaller (subnormal)
  magnitudes, and the result is the multiple of \<open>2\<^sup>e\<^sup>-\<^sup>5\<^sup>2\<close> nearest to \<open>x\<close>. Overflow
  to infinity (a magnitude of \<open>2\<^sup>1\<^sup>0\<^sup>2\<^sup>4\<close> and above) is not modelled. A binary64 number is
  a rational \<open>x\<close> with \<open>round64 x = x\<close>. \<^verbatim>\<open>Math.max\<close>, \<^verbatim>\<open>Math.min\<close> and \<^verbatim>\<open><\<close>
  are exact on binary64 numbers.
\<close>

definition roundEven :: "rat \<Rightarrow> int" where
  "roundEven x =
     (let f = \<lfloor>x\<rfloor>; r = x - of_int f
      in if r < 1 / 2 then f else if 1 / 2 < r then f + 1 else if even f then f else f + 1)"

definition exponent64 :: "rat \<Rightarrow> int" where
  "exponent64 x =
     (case quotient_of \<bar>x\<bar> of
        (p, q) \<Rightarrow>
          (let e = bitlen p - bitlen q
           in max (if 2 powi e \<le> \<bar>x\<bar> then e else e - 1) (- 1022)))"

definition round64 :: "rat \<Rightarrow> rat" where
  "round64 x =
     (if x = 0 then 0
      else (let ulp = 2 powi (exponent64 x - 52)
            in of_int (roundEven (x / ulp)) * ulp))"

text \<open>
  The loop and the method with the arithmetic of the source: \<open>splitLoop\<close> and
  \<open>splitAudioIntoChunks\<close> with each sum and difference rounded. The duration and the
  two parameters are binary64 numbers in the source.
\<close>

partial_function (option) splitLoop64 ::
  "(rat \<Rightarrow> rat \<Rightarrow> nat \<Rightarrow> error + Buffer) \<Rightarrow> rat \<Rightarrow> rat \<Rightarrow> rat \<Rightarrow> rat \<Rightarrow> nat
     \<Rightarrow> AudioChunk list \<Rightarrow> (error + AudioChunk list) option"
where
  "splitLoop64 extract duration chunkDuration overlap currentTime chunkIndex chunks =
     (if currentTime < duration then
        (let startTime = max 0 (round64 (currentTime - overlap));
             chunkLength = min chunkDuration (round64 (duration - startTime))
         in case extract startTime chunkLength chunkIndex of
              Inl e \<Rightarrow> Some (Inl e)
            | Inr buf \<Rightarrow>
                splitLoop64 extract duration chunkDuration overlap
                  (round64 (currentTime + round64 (chunkDuration - overlap))) (chunkIndex + 1)
                  (chunks @ [\<lparr> buffer = buf, startTime = startTime,
                               endTime = round64 (startTime + chunkLength),
                               index = chunkIndex \<rparr>]))
      else Some (Inr chunks))"

definition splitAudioIntoChunks64 ::
  "AudioEnv \<Rightarrow> string \<Rightarrow> rat option \<Rightarrow> rat option \<Rightarrow> (error + AudioChunk list) option"
where
  "splitAudioIntoChunks64 A audioPath chunkDurationArg overlapArg =
     (let chunkDuration = (case chunkDurationArg of None \<Rightarrow> 59 | Some v \<Rightarrow> v);
          overlap = (case overlapArg of None \<Rightarrow> 1 | Some v \<Rightarrow> v)
      in case getAudioDuration A audioPath of
           Inl e \<Rightarrow> Some (Inl e)
         | Inr duration \<Rightarrow>
             splitLoop64 (extractChunk A audioPath) duration chunkDuration overlap 0 0 [])"

declare splitLoop64.simps [code]

section \<open>Options, world and providers\<close>

subsection \<open>Processing options and the \<^verbatim>\<open>Config\<close> singleton\<close>

text \<open>
  A property of a JavaScript options object is absent, or present with a value that may
  be \<^verbatim>\<open>undefined\<close>. The difference matters for the object spread
  \<^verbatim>\<open>{ ...a, ...b }\<close>, where a present key of \<open>b\<close> wins even when it holds
  \<^verbatim>\<open>undefined\<close>. The three last fields are read by the transcriber although the
  interface \<^verbatim>\<open>ProcessingOptions\<close> does not declare them. Durations are rationals;
  the two counts are natural numbers.
\<close>

datatype 'a property = Absent | Present "'a option"

fun getv :: "'a property \<Rightarrow> 'a option" where
  "getv Absent = None"
| "getv (Present v) = v"

fun spreadProp :: "'a property \<Rightarrow> 'a property \<Rightarrow> 'a property" where
  "spreadProp a Absent = a"
| "spreadProp a (Present v) = Present v"

record ProcessingOptions =
  chunkDuration :: "rat property"
  overlap :: "rat property"
  outputFormat :: "OutputFormat property"
  outputPath :: "string property"
  tempDir :: "string property"
  verbose :: "bool property"
  maxConcurrentChunks :: "nat property"
  retryFailedChunks :: "bool property"
  maxRetries :: "nat property"

definition spread :: "ProcessingOptions \<Rightarrow> ProcessingOptions \<Rightarrow> ProcessingOptions" where
  "spread a b =
     \<lparr> chunkDuration = spreadProp (chunkDuration a) (chunkDuration b),
       overlap = spreadProp (overlap a) (overlap b),
       outputFormat = spreadProp (outputFormat a) (outputFormat b),
       outputPath = spreadProp (outputPath a) (outputPath b),
       tempDir = spreadProp (tempDir a) (tempDir b),
       verbose = spreadProp (verbose a) (verbose b),
       maxConcurrentChunks = spreadProp (maxConcurrentChunks a) (maxConcurrentChunks b),
       retryFailedChunks = spreadProp (retryFailedChunks a) (retryFailedChunks b),
       maxRetries = spreadProp (maxRetries a) (maxRetries b) \<rparr>"

text \<open>
  \<^verbatim>\<open>Config.loadDefaultProcessingOptions\<close>; the argument is
  \<^verbatim>\<open>path.join(process.cwd(), '.temp')\<close>.
\<close>

definition loadDefaultProcessingOptions :: "string \<Rightarrow> ProcessingOptions" where
  "loadDefaultProcessingOptions tmp =
     \<lparr> chunkDuration = Present (Some 59),
       overlap = Present (Some 1),
       outputFormat = Present None,
       outputPath = Absent,
       tempDir = Present (Some tmp),
       verbose = Present (Some False),
       maxConcurrentChunks = Absent,
       retryFailedChunks = Absent,
       maxRetries = Absent \<rparr>"

text \<open>Truthiness and the \<^verbatim>\<open>||\<close> defaults with which the options are read.\<close>

definition truthy :: "bool property \<Rightarrow> bool" where
  "truthy p = (getv p = Some True)"

definition numOr :: "'a::zero property \<Rightarrow> 'a \<Rightarrow> 'a" where
  "numOr p dflt = (case getv p of None \<Rightarrow> dflt | Some v \<Rightarrow> if v = 0 then dflt else v)"

subsection \<open>The world: remote service state and observable effects\<close>

text \<open>
  The pipeline runs in a world made of the state of the remote transcription service
  (an arbitrary type \<open>'s\<close>) and the trace of the effects of the transcriber, in order:
  every \<^verbatim>\<open>console.log\<close> and \<^verbatim>\<open>console.error\<close> (as a structured event; elapsed
  wall-clock times are left out), every \<^verbatim>\<open>setTimeout\<close> delay that is awaited (in
  milliseconds), the write of the output file and the cleanup of temporary files.
  The spinner of the verbose mode is not modelled.

  The events carry the 0-based chunk index (the messages print it plus one):
  \<open>LogProcessing n m\<close> is \<^verbatim>\<open>Processing n chunks with max m parallel...\<close>,
  \<open>LogChunkCompleted i\<close> and \<open>LogChunkFailed i e\<close> are the two outcomes of a chunk in
  a batch, \<open>LogRetrying n\<close> is \<^verbatim>\<open>Retrying n failed chunks...\<close>,
  \<open>LogRetryAttempt i k m\<close> is \<^verbatim>\<open>Retrying chunk i (attempt k/m)\<close>,
  \<open>LogRetrySucceeded i k\<close> is \<^verbatim>\<open>Chunk i succeeded on retry k\<close>,
  \<open>LogRetryExhausted i m e\<close> is \<^verbatim>\<open>Chunk i failed after m retries: e\<close>,
  \<open>LogSuccessCount v n\<close> is \<^verbatim>\<open>Successfully transcribed v/n chunks\<close>;
  \<open>LogAudioInfo\<close>, \<open>LogSplit\<close> and \<open>LogSaved\<close> are the verbose messages of
  \<^verbatim>\<open>transcribeFile\<close>; \<open>WriteFile path content\<close> is \<^verbatim>\<open>fs.writeFileSync\<close> in
  \<^verbatim>\<open>saveOutput\<close>, taken to succeed; \<open>Cleanup\<close> is
  \<^verbatim>\<open>cleanupTempFiles\<close> followed by \<^verbatim>\<open>AuthHelper.cleanup\<close>.
\<close>

datatype event =
    LogAudioInfo string AudioEncoding rat
  | LogSplit nat
  | LogProcessing nat nat
  | LogChunkCompleted nat
  | LogChunkFailed nat error
  | LogRetrying nat
  | LogRetryAttempt nat nat nat
  | LogRetrySucceeded nat nat
  | LogRetryExhausted nat nat error
  | LogSuccessCount nat nat
  | LogSaved string
  | Delay nat
  | WriteFile string string
  | Cleanup

record 's World =
  service :: 's
  trace :: "event list"

definition emit :: "event \<Rightarrow> 's World \<Rightarrow> 's World" where
  "emit e w = w\<lparr> trace := trace w @ [e] \<rparr>"

definition emitIf :: "bool \<Rightarrow> event \<Rightarrow> 's World \<Rightarrow> 's World" where
  "emitIf c e w = (if c then emit e w else w)"

subsection \<open>Raw responses of the remote services\<close>

text \<open>
  The providers read the responses as untyped objects. Their shapes are given here as
  datatypes whose selectors carry a prefix (\<open>g_\<close> for the Speech-to-Text response,
  \<open>v_\<close> for the Vertex AI one); an optional field that is missing is \<open>None\<close>.
\<close>

datatype GDuration = GDuration (g_seconds: "int option") (g_nanos: "int option")

datatype GWord =
  GWord (g_word: string) (g_startTime: "GDuration option") (g_endTime: "GDuration option")
        (g_confidence: "rat option") (g_speakerTag: "rat option")

datatype GAlternative =
  GAlternative (g_transcript: string) (g_altConfidence: "rat option")
               (g_words: "GWord list option")

datatype GResult =
  GResult (g_alternatives: "GAlternative list option") (g_languageCode: "string option")

datatype GResponse = GResponse (g_results: "GResult list option")

datatype PbValue =
    NullValue
  | StringValue string
  | NumberValue rat
  | BoolValue bool
  | ListValue "PbValue list"
  | StructValue "(string \<times> PbValue) list"

datatype VResponse = VResponse (v_predictions: "PbValue list option")

subsection \<open>\<^verbatim>\<open>GoogleSpeechProvider\<close>\<close>

fun timeToSeconds :: "GDuration option \<Rightarrow> rat" where
  "timeToSeconds None = 0"
| "timeToSeconds (Some t) =
     of_int (case g_seconds t of None \<Rightarrow> 0 | Some v \<Rightarrow> v)
     + of_int (case g_nanos t of None \<Rightarrow> 0 | Some v \<Rightarrow> v) / 1000000000"

fun join :: "string list \<Rightarrow> string" where
  "join [] = []"
| "join [x] = x"
| "join (x # y # ys) = x @ '' '' @ join (y # ys)"

text \<open>
  Strings are lists of 8-bit characters. \<open>isSpace\<close> holds of the characters among them
  that \<^verbatim>\<open>String.prototype.trim\<close> removes: tab, line feed, vertical tab, form feed,
  carriage return, space and the no-break space \<open>U+00A0\<close>; the white space beyond
  \<open>U+00FF\<close> has no counterpart in the model.
\<close>

definition isSpace :: "char \<Rightarrow> bool" where
  "isSpace c =
     (c \<in> set [CHR '' '', CHR 0x09, CHR 0x0A, CHR 0x0B, CHR 0x0C, CHR 0x0D, CHR 0xA0])"

definition trim :: "string \<Rightarrow> string" where
  "trim str = rev (dropWhile isSpace (rev (dropWhile isSpace str)))"

definition g_wordInfo :: "GWord \<Rightarrow> WordInfo" where
  "g_wordInfo w =
     \<lparr> WordInfo.word = g_word w,
       WordInfo.startTime = timeToSeconds (g_startTime w),
       WordInfo.endTime = timeToSeconds (g_endTime w),
       WordInfo.confidence = g_confidence w,
       WordInfo.speakerTag = g_speakerTag w \<rparr>"

definition g_alternativeWord :: "GWord \<Rightarrow> WordInfo" where
  "g_alternativeWord w =
     \<lparr> WordInfo.word = g_word w,
       WordInfo.startTime = timeToSeconds (g_startTime w),
       WordInfo.endTime = timeToSeconds (g_endTime w),
       WordInfo.confidence = g_confidence w,
       WordInfo.speakerTag = None \<rparr>"

definition g_alternative :: "GAlternative \<Rightarrow> Alternative" where
  "g_alternative alt =
     \<lparr> Alternative.transcript = g_transcript alt,
       Alternative.confidence = g_altConfidence alt,
       Alternative.words = map_option (map g_alternativeWord) (g_words alt) \<rparr>"

definition g_primaryTranscript :: "GResult \<Rightarrow> string" where
  "g_primaryTranscript r =
     (case g_alternatives r of Some (a # _) \<Rightarrow> g_transcript a | _ \<Rightarrow> [])"

definition emptyResult :: TranscriptionResult where
  "emptyResult =
     \<lparr> TranscriptionResult.transcript = [],
       TranscriptionResult.words = Some [],
       TranscriptionResult.alternatives = Some [],
       TranscriptionResult.languageCode = None,
       TranscriptionResult.confidence = None \<rparr>"

definition g_processResponse :: "GResponse \<Rightarrow> TranscriptionResult" where
  "g_processResponse response =
     (let results = (case g_results response of None \<Rightarrow> [] | Some rs \<Rightarrow> rs)
      in case results of
           [] \<Rightarrow> emptyResult
         | primaryResult # _ \<Rightarrow>
             (let alts = (case g_alternatives primaryResult of None \<Rightarrow> [] | Some as \<Rightarrow> as);
                  primaryWords = (case alts of [] \<Rightarrow> None | a # _ \<Rightarrow> g_words a);
                  primaryConfidence = (case alts of [] \<Rightarrow> None | a # _ \<Rightarrow> g_altConfidence a);
                  wordsOut = (case primaryWords of None \<Rightarrow> [] | Some ws \<Rightarrow> map g_wordInfo ws);
                  alternativesOut = map g_alternative (tl alts);
                  fullTranscript = trim (join (map g_primaryTranscript results))
              in \<lparr> TranscriptionResult.transcript = fullTranscript,
                   TranscriptionResult.words = Some wordsOut,
                   TranscriptionResult.alternatives = Some alternativesOut,
                   TranscriptionResult.languageCode = g_languageCode primaryResult,
                   TranscriptionResult.confidence = primaryConfidence \<rparr>))"

text \<open>
  What the providers find in the process: the environment variables read through
  \<^verbatim>\<open>Config\<close>, the outcome of \<^verbatim>\<open>AuthHelper.validateServiceAccountKey\<close> (the message it
  throws, if any), \<^verbatim>\<open>fs.readFileSync\<close>, and the two remote calls
  (\<^verbatim>\<open>SpeechClient.recognize\<close>, \<^verbatim>\<open>PredictionServiceClient.predict\<close>), which act on the
  state of the remote service and either reject with a message or answer.
\<close>

record 's Remote =
  projectId :: "string option"
  credentials :: "string option"
  serviceAccountKeyError :: "string option"
  vertexProject :: string
  vertexEndpointId :: string
  readFile :: "string \<Rightarrow> error + Buffer"
  recognize :: "'s \<Rightarrow> Buffer \<Rightarrow> TranscriptionConfig \<Rightarrow> (string + GResponse) \<times> 's"
  predict :: "'s \<Rightarrow> Buffer \<Rightarrow> TranscriptionConfig \<Rightarrow> (string + VResponse) \<times> 's"

definition falsyStr :: "string option \<Rightarrow> bool" where
  "falsyStr x = (case x of None \<Rightarrow> True | Some str \<Rightarrow> str = [])"

definition g_validateConfig :: "'s Remote \<Rightarrow> TranscriptionConfig \<Rightarrow> error option" where
  "g_validateConfig R config =
     (if TranscriptionConfig.languageCode config = [] then
        Some (ConfigurationError ''Language code is required for Google Speech-to-Text'')
      else if falsyStr (projectId R) then
        Some (ConfigurationError
                (''Google Cloud project ID is not configured. ''
                 @ ''Set GOOGLE_CLOUD_PROJECT_ID environment variable.''))
      else if falsyStr (credentials R) then
        Some (ConfigurationError
                (''Google Cloud credentials are not configured. ''
                 @ ''Set GOOGLE_APPLICATION_CREDENTIALS environment variable.''))
      else case serviceAccountKeyError R of
             Some msg \<Rightarrow> Some (ConfigurationError (''Invalid Google Cloud credentials: '' @ msg))
           | None \<Rightarrow> None)"

text \<open>The offset adjustment at the end of both \<^verbatim>\<open>transcribeChunk\<close> methods.\<close>

definition adjustWord :: "rat \<Rightarrow> WordInfo \<Rightarrow> WordInfo" where
  "adjustWord offset w =
     w\<lparr> WordInfo.startTime := WordInfo.startTime w + offset,
        WordInfo.endTime := WordInfo.endTime w + offset \<rparr>"

definition adjustTimestamps :: "AudioChunk \<Rightarrow> TranscriptionResult \<Rightarrow> TranscriptionResult" where
  "adjustTimestamps chunk result =
     (case TranscriptionResult.words result of
        None \<Rightarrow> result
      | Some ws \<Rightarrow>
          result\<lparr> TranscriptionResult.words :=
                    Some (map (adjustWord (AudioChunk.startTime chunk)) ws) \<rparr>)"

definition g_transcribe ::
  "'s Remote \<Rightarrow> string \<Rightarrow> TranscriptionConfig \<Rightarrow> 's \<Rightarrow> (error + TranscriptionResult) \<times> 's"
where
  "g_transcribe R audioPath config s =
     (case g_validateConfig R config of
        Some e \<Rightarrow> (Inl e, s)
      | None \<Rightarrow>
          (case readFile R audioPath of
             Inl e \<Rightarrow> (Inl e, s)
           | Inr audioBytes \<Rightarrow>
               (case recognize R s audioBytes config of
                  (Inl err, s') \<Rightarrow> (Inl (TranscriptionFailed err), s')
                | (Inr response, s') \<Rightarrow> (Inr (g_processResponse response), s'))))"

definition g_transcribeChunk ::
  "'s Remote \<Rightarrow> AudioChunk \<Rightarrow> TranscriptionConfig \<Rightarrow> 's \<Rightarrow> (error + TranscriptionResult) \<times> 's"
where
  "g_transcribeChunk R chunk config s =
     (case g_validateConfig R config of
        Some e \<Rightarrow> (Inl e, s)
      | None \<Rightarrow>
          (case recognize R s (buffer chunk) config of
             (Inl err, s') \<Rightarrow> (Inl (ChunkTranscriptionFailed err), s')
           | (Inr response, s') \<Rightarrow>
               (Inr (adjustTimestamps chunk (g_processResponse response)), s')))"

subsection \<open>\<^verbatim>\<open>VertexAISpeechProvider\<close>\<close>

text \<open>
  A prediction is a protobuf value; its fields are those of a struct and none for any
  other value. The three getters fall back to the empty string, \<open>0\<close> and the empty
  list when the field is missing or of another kind.
\<close>

definition fieldsOf :: "PbValue \<Rightarrow> (string \<times> PbValue) list" where
  "fieldsOf v = (case v of StructValue fs \<Rightarrow> fs | _ \<Rightarrow> [])"

definition getStringValue :: "PbValue option \<Rightarrow> string" where
  "getStringValue field = (case field of Some (StringValue str) \<Rightarrow> str | _ \<Rightarrow> [])"

definition getNumberValue :: "PbValue option \<Rightarrow> rat" where
  "getNumberValue field = (case field of Some (NumberValue n) \<Rightarrow> n | _ \<Rightarrow> 0)"

definition getListValue :: "PbValue option \<Rightarrow> PbValue list" where
  "getListValue field = (case field of Some (ListValue vs) \<Rightarrow> vs | _ \<Rightarrow> [])"

definition v_wordInfo :: "PbValue \<Rightarrow> WordInfo" where
  "v_wordInfo wordObj =
     (let wordFields = fieldsOf wordObj
      in \<lparr> WordInfo.word = getStringValue (map_of wordFields ''word''),
           WordInfo.startTime = getNumberValue (map_of wordFields ''startTime''),
           WordInfo.endTime = getNumberValue (map_of wordFields ''endTime''),
           WordInfo.confidence = Some (getNumberValue (map_of wordFields ''confidence'')),
           WordInfo.speakerTag = Some (getNumberValue (map_of wordFields ''speakerTag'')) \<rparr>)"

definition v_alternative :: "PbValue \<Rightarrow> Alternative" where
  "v_alternative altObj =
     (let altFields = fieldsOf altObj
      in \<lparr> Alternative.transcript = getStringValue (map_of altFields ''transcript''),
           Alternative.confidence = Some (getNumberValue (map_of altFields ''confidence'')),
           Alternative.words = None \<rparr>)"

definition v_processResponse :: "VResponse \<Rightarrow> TranscriptionResult" where
  "v_processResponse response =
     (let predictions = (case v_predictions response of None \<Rightarrow> [] | Some ps \<Rightarrow> ps)
      in case predictions of
           [] \<Rightarrow> emptyResult
         | prediction # _ \<Rightarrow>
             (let fields = fieldsOf prediction
              in \<lparr> TranscriptionResult.transcript = getStringValue (map_of fields ''transcript''),
                   TranscriptionResult.words =
                     Some (map v_wordInfo (getListValue (map_of fields ''words''))),
                   TranscriptionResult.alternatives =
                     Some (map v_alternative (tl (getListValue (map_of fields ''alternatives'')))),
                   TranscriptionResult.languageCode =
                     Some (getStringValue (map_of fields ''languageCode'')),
                   TranscriptionResult.confidence =
                     Some (getNumberValue (map_of fields ''confidence'')) \<rparr>))"

definition v_validateConfig :: "'s Remote \<Rightarrow> TranscriptionConfig \<Rightarrow> error option" where
  "v_validateConfig R config =
     (if TranscriptionConfig.languageCode config = [] then
        Some (ConfigurationError ''Language code is required for Vertex AI Speech'')
      else if vertexProject R = [] then
        Some (ConfigurationError
                (''Vertex AI project is not configured. Set VERTEX_AI_PROJECT_ID ''
                 @ ''or GOOGLE_CLOUD_PROJECT_ID environment variable.''))
      else if vertexEndpointId R = [] then
        Some (ConfigurationError
                (''Vertex AI Speech endpoint ID is not configured. ''
                 @ ''Set VERTEX_AI_SPEECH_ENDPOINT_ID environment variable.''))
      else None)"

definition v_transcribe ::
  "'s Remote \<Rightarrow> string \<Rightarrow> TranscriptionConfig \<Rightarrow> 's \<Rightarrow> (error + TranscriptionResult) \<times> 's"
where
  "v_transcribe R audioPath config s =
     (case v_validateConfig R config of
        Some e \<Rightarrow> (Inl e, s)
      | None \<Rightarrow>
          (case readFile R audioPath of
             Inl e \<Rightarrow> (Inl e, s)
           | Inr audioBytes \<Rightarrow>
               (case predict R s audioBytes config of
                  (Inl err, s') \<Rightarrow> (Inl (TranscriptionFailed err), s')
                | (Inr response, s') \<Rightarrow> (Inr (v_processResponse response), s'))))"

definition v_transcribeChunk ::
  "'s Remote \<Rightarrow> AudioChunk \<Rightarrow> TranscriptionConfig \<Rightarrow> 's \<Rightarrow> (error + TranscriptionResult) \<times> 's"
where
  "v_transcribeChunk R chunk config s =
     (case v_validateConfig R config of
        Some e \<Rightarrow> (Inl e, s)
      | None \<Rightarrow>
          (case predict R s (buffer chunk) config of
             (Inl err, s') \<Rightarrow> (Inl (ChunkTranscriptionFailed err), s')
           | (Inr response, s') \<Rightarrow>
               (Inr (adjustTimestamps chunk (v_processResponse response)), s')))"

subsection \<open>The \<^verbatim>\<open>TranscriptionProvider\<close> interface\<close>

text \<open>
  The transcriber holds one of the two providers, chosen by name in its constructor, and
  calls it through the interface. The calls act on the service component of the world.
\<close>

definition validateConfig :: "'s Remote \<Rightarrow> ProviderName \<Rightarrow> TranscriptionConfig \<Rightarrow> error option" where
  "validateConfig R name config =
     (case name of google_speech \<Rightarrow> g_validateConfig R config
                 | vertex_ai \<Rightarrow> v_validateConfig R config)"

definition transcribe ::
  "'s Remote \<Rightarrow> ProviderName \<Rightarrow> string \<Rightarrow> TranscriptionConfig \<Rightarrow> 's World
     \<Rightarrow> (error + TranscriptionResult) \<times> 's World"
where
  "transcribe R name audioPath config w =
     (case (case name of google_speech \<Rightarrow> g_transcribe R audioPath config (service w)
                       | vertex_ai \<Rightarrow> v_transcribe R audioPath config (service w)) of
        (r, s') \<Rightarrow> (r, w\<lparr> service := s' \<rparr>))"

definition transcribeChunk ::
  "'s Remote \<Rightarrow> ProviderName \<Rightarrow> AudioChunk \<Rightarrow> TranscriptionConfig \<Rightarrow> 's World
     \<Rightarrow> (error + TranscriptionResult) \<times> 's World"
where
  "transcribeChunk R name chunk config w =
     (case (case name of google_speech \<Rightarrow> g_transcribeChunk R chunk config (service w)
                       | vertex_ai \<Rightarrow> v_transcribeChunk R chunk config (service w)) of
        (r, s') \<Rightarrow> (r, w\<lparr> service := s' \<rparr>))"

section \<open>The transcriber\<close>

subsection \<open>\<^verbatim>\<open>Transcriber.mergeResults\<close>\<close>

text \<open>
  The loop over the results updates the fields of \<^verbatim>\<open>mergedResult\<close> and the two counters;
  its state is the tuple of the transcript, the word array, \<open>totalConfidence\<close>,
  \<open>confidenceCount\<close> and the language code. \<^verbatim>\<open>if (result.confidence)\<close> is a test for
  truthiness: it fails for \<^verbatim>\<open>undefined\<close> and for \<open>0\<close>.
  \<^verbatim>\<open>Array.prototype.sort\<close> is stable, as \<^const>\<open>sort_key\<close> is.
\<close>

type_synonym mergeState = "string \<times> WordInfo list \<times> rat \<times> nat \<times> string option"

definition truthyNum :: "rat option \<Rightarrow> bool" where
  "truthyNum c = (case c of None \<Rightarrow> False | Some v \<Rightarrow> v \<noteq> 0)"

definition mergeStep :: "mergeState \<Rightarrow> TranscriptionResult \<Rightarrow> mergeState" where
  "mergeStep st result =
     (case st of (mergedTranscript, mergedWords, totalConfidence, confidenceCount, mergedLanguage) \<Rightarrow>
        (if TranscriptionResult.transcript result \<noteq> [] then
           mergedTranscript @ (if mergedTranscript \<noteq> [] then '' '' else [])
             @ TranscriptionResult.transcript result
         else mergedTranscript,
         case TranscriptionResult.words result of
           Some ws \<Rightarrow> mergedWords @ ws
         | None \<Rightarrow> mergedWords,
         case TranscriptionResult.confidence result of
           Some c \<Rightarrow> if c \<noteq> 0 then totalConfidence + c else totalConfidence
         | None \<Rightarrow> totalConfidence,
         if truthyNum (TranscriptionResult.confidence result)
           then confidenceCount + 1
           else confidenceCount,
         if falsyStr mergedLanguage \<and> \<not> falsyStr (TranscriptionResult.languageCode result)
           then TranscriptionResult.languageCode result
           else mergedLanguage))"

definition mergeResults :: "TranscriptionResult list \<Rightarrow> TranscriptionResult" where
  "mergeResults results =
     (case foldl mergeStep ([], [], 0, 0, None) results of
        (mergedTranscript, mergedWords, totalConfidence, confidenceCount, mergedLanguage) \<Rightarrow>
          \<lparr> TranscriptionResult.transcript = mergedTranscript,
            TranscriptionResult.words = Some (sort_key WordInfo.startTime mergedWords),
            TranscriptionResult.alternatives = Some [],
            TranscriptionResult.languageCode = mergedLanguage,
            TranscriptionResult.confidence =
              Some (if confidenceCount > 0 then totalConfidence / of_nat confidenceCount else 0) \<rparr>)"

subsection \<open>The batches of \<^verbatim>\<open>Transcriber.transcribeChunks\<close>\<close>

text \<open>
  One batch: \<^verbatim>\<open>batch.map(async ...)\<close> starts the provider calls in the order of the batch
  and \<^verbatim>\<open>Promise.all\<close> waits for all of them. The model runs the calls one after the other
  in that order on the state of the remote service; the interleaving of the answers is
  not modelled. A failed chunk is pushed on \<open>failedChunks\<close> and yields \<^verbatim>\<open>null\<close>.
\<close>

fun runBatch ::
  "'s Remote \<Rightarrow> ProviderName \<Rightarrow> bool \<Rightarrow> TranscriptionConfig \<Rightarrow> (nat \<times> AudioChunk) list
     \<Rightarrow> nat list \<Rightarrow> 's World
     \<Rightarrow> (nat \<times> TranscriptionResult option) list \<times> nat list \<times> 's World"
where
  "runBatch R name verb config [] failedChunks w = ([], failedChunks, w)"
| "runBatch R name verb config ((chunkIndex, chunk) # rest) failedChunks w =
     (case transcribeChunk R name chunk config w of
        (Inr result, w1) \<Rightarrow>
          (case runBatch R name verb config rest failedChunks
                  (emitIf verb (LogChunkCompleted chunkIndex) w1) of
             (batchResults, failedChunks', w2) \<Rightarrow>
               ((chunkIndex, Some result) # batchResults, failedChunks', w2))
      | (Inl e, w1) \<Rightarrow>
          (case runBatch R name verb config rest (failedChunks @ [chunkIndex])
                  (emit (LogChunkFailed chunkIndex e) w1) of
             (batchResults, failedChunks', w2) \<Rightarrow>
               ((chunkIndex, None) # batchResults, failedChunks', w2)))"

definition storeResults ::
  "TranscriptionResult option list \<Rightarrow> (nat \<times> TranscriptionResult option) list
     \<Rightarrow> TranscriptionResult option list"
where
  "storeResults results batchResults =
     foldl (\<lambda>rs (idx, result). rs[idx := result]) results batchResults"

function dispatchLoop ::
  "'s Remote \<Rightarrow> ProviderName \<Rightarrow> ProcessingOptions \<Rightarrow> TranscriptionConfig \<Rightarrow> AudioChunk list
     \<Rightarrow> nat \<Rightarrow> TranscriptionResult option list \<Rightarrow> nat list \<Rightarrow> 's World
     \<Rightarrow> TranscriptionResult option list \<times> nat list \<times> 's World"
where
  "dispatchLoop R name options config chunks i results failedChunks w =
     (if i < length chunks then
        (let maxConcurrent = numOr (maxConcurrentChunks options) 3;
             batch = take (min (i + maxConcurrent) (length chunks) - i) (drop i chunks);
             batchIndices = map (\<lambda>idx. i + idx) [0..<length batch]
         in case runBatch R name (truthy (verbose options)) config (zip batchIndices batch)
                   failedChunks w of
              (batchResults, failedChunks', w1) \<Rightarrow>
                dispatchLoop R name options config chunks (i + maxConcurrent)
                  (storeResults results batchResults) failedChunks'
                  (emitIf (i + maxConcurrent < length chunks) (Delay 100) w1))
      else (results, failedChunks, w))"
  by pat_completeness auto
termination
  by (relation "measure (\<lambda>(R, name, options, config, chunks, i, rest). length chunks - i)")
     (auto simp: numOr_def split: option.split)

declare dispatchLoop.simps [simp del]

subsection \<open>\<^verbatim>\<open>Transcriber.retryFailedChunks\<close>\<close>

text \<open>
  The \<^verbatim>\<open>while (retryCount < maxRetries && !success)\<close> loop for one failed index. The
  whole body is inside \<^verbatim>\<open>try\<close>; a success leaves the loop, a failure of any kind
  increments \<open>retryCount\<close>. Reading \<^verbatim>\<open>chunks[chunkIndex]\<close> out of range gives
  \<^verbatim>\<open>undefined\<close>, on which the provider throws after its configuration check. The table
  \<open>results\<close> has the length of \<open>chunks\<close>, as at the only call site. The constant
  \<^verbatim>\<open>maxRetries\<close> of the method, \<^verbatim>\<open>options.maxRetries || 3\<close>, is \<open>maxRetriesN\<close>; the
  backoff delay \<^verbatim>\<open>Math.pow(2, retryCount) * 1000\<close> is awaited before the call.
\<close>

definition transcribeChunkAt ::
  "'s Remote \<Rightarrow> ProviderName \<Rightarrow> AudioChunk list \<Rightarrow> nat \<Rightarrow> TranscriptionConfig \<Rightarrow> 's World
     \<Rightarrow> (error + TranscriptionResult) \<times> 's World"
where
  "transcribeChunkAt R name chunks chunkIndex config w =
     (if chunkIndex < length chunks then transcribeChunk R name (chunks ! chunkIndex) config w
      else case validateConfig R name config of
             Some e \<Rightarrow> (Inl e, w)
           | None \<Rightarrow> (Inl (TypeError ''Cannot read properties of undefined''), w))"

function retryChunk ::
  "'s Remote \<Rightarrow> ProviderName \<Rightarrow> AudioChunk list \<Rightarrow> TranscriptionConfig \<Rightarrow> nat \<Rightarrow> nat \<Rightarrow> nat
     \<Rightarrow> TranscriptionResult option list \<Rightarrow> 's World
     \<Rightarrow> TranscriptionResult option list \<times> 's World"
where
  "retryChunk R name chunks config maxRetriesN chunkIndex retryCount results w =
     (if retryCount < maxRetriesN then
        (case transcribeChunkAt R name chunks chunkIndex config
                (emit (Delay (2 ^ retryCount * 1000))
                   (emit (LogRetryAttempt chunkIndex (retryCount + 1) maxRetriesN) w)) of
           (Inr result, w1) \<Rightarrow>
             (results[chunkIndex := Some result],
              emit (LogRetrySucceeded chunkIndex (retryCount + 1)) w1)
         | (Inl e, w1) \<Rightarrow>
             retryChunk R name chunks config maxRetriesN chunkIndex (retryCount + 1) results
               (emitIf (retryCount + 1 \<ge> maxRetriesN)
                  (LogRetryExhausted chunkIndex maxRetriesN e) w1))
      else (results, w))"
  by pat_completeness auto
termination
  by (relation "measure (\<lambda>(R, name, chunks, config, maxRetriesN, chunkIndex, retryCount, rest).
                   maxRetriesN - retryCount)") auto

declare retryChunk.simps [simp del]

definition retryFailedChunks ::
  "'s Remote \<Rightarrow> ProviderName \<Rightarrow> AudioChunk list \<Rightarrow> nat list \<Rightarrow> TranscriptionConfig
     \<Rightarrow> TranscriptionResult option list \<Rightarrow> ProcessingOptions \<Rightarrow> 's World
     \<Rightarrow> TranscriptionResult option list \<times> 's World"
where
  "retryFailedChunks R name chunks failedIndices config results options w =
     (let maxRetriesN = numOr (maxRetries options) 3
      in foldl (\<lambda>(rs, w') chunkIndex.
                  retryChunk R name chunks config maxRetriesN chunkIndex 0 rs w')
           (results, w) failedIndices)"

subsection \<open>\<^verbatim>\<open>Transcriber.transcribeChunks\<close>\<close>

text \<open>
  \<open>options\<close> is \<^verbatim>\<open>this.config.getProcessingOptions()\<close>, a copy of the options of the
  \<^verbatim>\<open>Config\<close> singleton, here the argument \<open>singleton\<close>. \<open>resultsTable\<close> is the part
  of the method up to the end of the retry pass: it yields the table of results. The rest
  of the method filters the table and merges.
\<close>

definition resultsTable ::
  "'s Remote \<Rightarrow> ProviderName \<Rightarrow> ProcessingOptions \<Rightarrow> AudioChunk list \<Rightarrow> TranscriptionConfig
     \<Rightarrow> 's World \<Rightarrow> TranscriptionResult option list \<times> 's World"
where
  "resultsTable R name singleton chunks config w =
     (let options = singleton;
          maxConcurrent = numOr (maxConcurrentChunks options) 3
      in case dispatchLoop R name options config chunks 0 (replicate (length chunks) None) []
                (emitIf (truthy (verbose options))
                   (LogProcessing (length chunks) maxConcurrent) w) of
           (results, failedChunks, w1) \<Rightarrow>
             if truthy (ProcessingOptions.retryFailedChunks options) \<and> failedChunks \<noteq> [] then
               retryFailedChunks R name chunks failedChunks config results options
                 (emit (LogRetrying (length failedChunks)) w1)
             else (results, w1))"

definition validResultsOf :: "TranscriptionResult option list \<Rightarrow> TranscriptionResult list" where
  "validResultsOf results = concat (map (\<lambda>r. case r of None \<Rightarrow> [] | Some x \<Rightarrow> [x]) results)"

definition transcribeChunks ::
  "'s Remote \<Rightarrow> ProviderName \<Rightarrow> ProcessingOptions \<Rightarrow> AudioChunk list \<Rightarrow> TranscriptionConfig
     \<Rightarrow> 's World \<Rightarrow> (error + TranscriptionResult) \<times> 's World"
where
  "transcribeChunks R name singleton chunks config w =
     (case resultsTable R name singleton chunks config w of
        (results, w1) \<Rightarrow>
          (let validResults = validResultsOf results
           in if validResults = [] then (Inl AllChunksFailed, w1)
              else (Inr (mergeResults validResults),
                    emitIf (truthy (verbose singleton))
                      (LogSuccessCount (length validResults) (length chunks)) w1)))"

subsection \<open>\<^verbatim>\<open>Transcriber.transcribeFile\<close>\<close>

text \<open>
  The output writer is a collaborator: \<open>render\<close> stands for the serialisation of a
  result in a format and \<open>detectFormat\<close> for the format read off the extension of the
  output path. \<^verbatim>\<open>saveOutput\<close> writes one file.
\<close>

record 's Env =
  audioProcessor :: AudioEnv
  remote :: "'s Remote"
  render :: "OutputFormat \<Rightarrow> TranscriptionResult \<Rightarrow> string"
  detectFormat :: "string \<Rightarrow> OutputFormat"

definition saveOutput ::
  "'s Env \<Rightarrow> TranscriptionResult \<Rightarrow> string \<Rightarrow> OutputFormat option \<Rightarrow> 's World \<Rightarrow> 's World"
where
  "saveOutput E result path format w =
     (let outputFormat' = (case format of Some f \<Rightarrow> f | None \<Rightarrow> detectFormat E path)
      in emit (WriteFile path (render E outputFormat' result)) w)"

text \<open>
  The end of \<^verbatim>\<open>transcribeFile\<close>: on a result, the optional save, the cleanup and the
  return; on an error (the \<^verbatim>\<open>catch\<close> block), the cleanup and the rethrow. The method
  is given with the segmenter over exact numbers; what is proved of it below does not
  depend on the times of the chunks.
\<close>

definition finish ::
  "'s Env \<Rightarrow> ProcessingOptions \<Rightarrow> (error + TranscriptionResult) \<times> 's World
     \<Rightarrow> (error + TranscriptionResult) \<times> 's World"
where
  "finish E options rw =
     (case rw of
        (Inl e, w) \<Rightarrow> (Inl e, emit Cleanup w)
      | (Inr result, w) \<Rightarrow>
          (Inr result,
           emit Cleanup
             (case getv (outputPath options) of
                None \<Rightarrow> w
              | Some path \<Rightarrow>
                  if path = [] then w
                  else emitIf (truthy (verbose options)) (LogSaved path)
                         (saveOutput E result path (getv (outputFormat options)) w))))"

definition transcribeFile ::
  "'s Env \<Rightarrow> ProcessingOptions \<Rightarrow> ProviderName \<Rightarrow> string \<Rightarrow> TranscriptionConfig
     \<Rightarrow> ProcessingOptions option \<Rightarrow> 's World
     \<Rightarrow> ((error + TranscriptionResult) \<times> 's World) option"
where
  "transcribeFile E singleton name inputPath transcriptionConfig processingOptions w =
     (let options = (case processingOptions of None \<Rightarrow> singleton
                                              | Some po \<Rightarrow> spread singleton po);
          A = audioProcessor E
      in case validateAudioFile A inputPath of
           Some e \<Rightarrow> Some (finish E options (Inl e, w))
         | None \<Rightarrow>
             (case extractAudio A inputPath of
                Inl e \<Rightarrow> Some (finish E options (Inl e, w))
              | Inr audioPath \<Rightarrow>
                  (let detectedEncoding = detectEncoding A audioPath;
                       config = transcriptionConfig
                                  \<lparr> encoding := Some detectedEncoding,
                                    sampleRateHertz := Some 16000 \<rparr>
                   in case getAudioDuration A audioPath of
                        Inl e \<Rightarrow> Some (finish E options (Inl e, w))
                      | Inr duration \<Rightarrow>
                          (let w1 = emitIf (truthy (verbose options))
                                      (LogAudioInfo audioPath detectedEncoding duration) w
                           in if duration > numOr (chunkDuration options) 59 then
                                (case splitAudioIntoChunks A audioPath
                                        (getv (chunkDuration options)) (getv (overlap options)) of
                                   None \<Rightarrow> None
                                 | Some (Inl e) \<Rightarrow> Some (finish E options (Inl e, w1))
                                 | Some (Inr chunks) \<Rightarrow>
                                     Some (finish E options
                                       (transcribeChunks (remote E) name singleton chunks config
                                          (emitIf (truthy (verbose options))
                                             (LogSplit (length chunks)) w1))))
                              else Some (finish E options
                                     (transcribe (remote E) name audioPath config w1))))))"

subsection \<open>The command line\<close>

text \<open>
  The processing options that the action of the command line program passes to
  \<^verbatim>\<open>transcribeFile\<close>: a copy of the options of the singleton with six keys set from
  the flags. The two numbers are the results of \<^verbatim>\<open>parseInt\<close>, \<open>noRetry\<close> is the
  truthiness of \<^verbatim>\<open>options.noRetry\<close>. The program never writes the flags to the
  singleton.
\<close>

definition cliProcessingOptions ::
  "ProcessingOptions \<Rightarrow> rat \<Rightarrow> nat \<Rightarrow> bool \<Rightarrow> bool option \<Rightarrow> string option
     \<Rightarrow> OutputFormat option \<Rightarrow> ProcessingOptions"
where
  "cliProcessingOptions singleton chunkDurationFlag maxConcurrentFlag noRetry verboseFlag
       output format =
     singleton
       \<lparr> chunkDuration := Present (Some chunkDurationFlag),
         maxConcurrentChunks := Present (Some maxConcurrentFlag),
         ProcessingOptions.retryFailedChunks := Present (Some (\<not> noRetry)),
         verbose := Present verboseFlag,
         outputPath := Present output,
         outputFormat := Present format \<rparr>"

section \<open>Notions used to state the properties\<close>

text \<open>
  The confidences that count in the merge: those that are present and not \<open>0\<close>.
\<close>

definition reportedConfidences :: "TranscriptionResult list \<Rightarrow> rat list" where
  "reportedConfidences results =
     concat (map (\<lambda>r. case TranscriptionResult.confidence r of
                          Some c \<Rightarrow> if c \<noteq> 0 then [c] else []
                        | None \<Rightarrow> []) results)"

text \<open>
  What \<^verbatim>\<open>processResponse\<close> makes of the answer of the remote service to the request for
  a chunk, in a given state of the service: the result with segment-relative times,
  before the adjustment at the end of \<^verbatim>\<open>transcribeChunk\<close>.
\<close>

definition parsedResponse ::
  "'s Remote \<Rightarrow> ProviderName \<Rightarrow> AudioChunk \<Rightarrow> TranscriptionConfig \<Rightarrow> 's
     \<Rightarrow> TranscriptionResult option"
where
  "parsedResponse R name chunk config s =
     (case name of
        google_speech \<Rightarrow>
          (case recognize R s (buffer chunk) config of
             (Inr response, _) \<Rightarrow> Some (g_processResponse response)
           | (Inl _, _) \<Rightarrow> None)
      | vertex_ai \<Rightarrow>
          (case predict R s (buffer chunk) config of
             (Inr response, _) \<Rightarrow> Some (v_processResponse response)
           | (Inl _, _) \<Rightarrow> None))"

text \<open>
  The call \<^verbatim>\<open>this.provider.transcribeChunk(chunks[chunkIndex], config)\<close> as a function
  of the state of the remote service: its outcome and the state it leaves the service in.
\<close>

definition providerCall ::
  "'s Remote \<Rightarrow> ProviderName \<Rightarrow> AudioChunk list \<Rightarrow> TranscriptionConfig \<Rightarrow> nat \<Rightarrow> 's
     \<Rightarrow> (error + TranscriptionResult) \<times> 's"
where
  "providerCall R name chunks config chunkIndex s =
     (case transcribeChunkAt R name chunks chunkIndex config \<lparr> service = s, trace = [] \<rparr> of
        (res, w) \<Rightarrow> (res, service w))"

text \<open>
  The retry policy in the words of the specification, for comparison with the loops of
  \<^verbatim>\<open>retryFailedChunks\<close>. \<open>spec_attempts call n s\<close> makes up to \<open>n\<close> calls, one after the
  other from the state \<open>s\<close>, and stops at the first success; it yields the history of
  the calls made, each with the state it was made in and its outcome, and the state after
  the last call. \<open>spec_retry call m idxs s\<close> does so for each failed index in turn,
  each index starting in the state the calls for the index before it have left.
\<close>

fun spec_attempts ::
  "('s \<Rightarrow> (error + 'a) \<times> 's) \<Rightarrow> nat \<Rightarrow> 's \<Rightarrow> ('s \<times> (error + 'a)) list \<times> 's"
where
  "spec_attempts call 0 s = ([], s)"
| "spec_attempts call (Suc n) s =
     (case call s of
        (Inr r, s') \<Rightarrow> ([(s, Inr r)], s')
      | (Inl e, s') \<Rightarrow> (case spec_attempts call n s' of (h, s'') \<Rightarrow> ((s, Inl e) # h, s'')))"

fun spec_retry ::
  "(nat \<Rightarrow> 's \<Rightarrow> (error + 'a) \<times> 's) \<Rightarrow> nat \<Rightarrow> nat list \<Rightarrow> 's
     \<Rightarrow> (nat \<times> ('s \<times> (error + 'a)) list) list \<times> 's"
where
  "spec_retry call m [] s = ([], s)"
| "spec_retry call m (idx # rest) s =
     (case spec_attempts (call idx) m s of
        (h, s1) \<Rightarrow> (case spec_retry call m rest s1 of
                      (hs, s2) \<Rightarrow> ((idx, h) # hs, s2)))"

text \<open>
  What the retry loop for an index logs and awaits for a list of outcomes, \<open>k\<close> attempts
  having been made before: for each outcome the line of the attempt and the backoff
  delay, followed by the line of the success, or by the line of the final failure when
  the failed attempt was number \<open>m\<close>. \<open>slotAfter old h\<close> is the slot of an index after
  the attempts of the history \<open>h\<close>, when it held \<open>old\<close> before.
\<close>

fun retryEvents :: "nat \<Rightarrow> nat \<Rightarrow> nat \<Rightarrow> (error + 'a) list \<Rightarrow> event list" where
  "retryEvents idx m k [] = []"
| "retryEvents idx m k (Inr r # os) =
     [LogRetryAttempt idx (k + 1) m, Delay (2 ^ k * 1000), LogRetrySucceeded idx (k + 1)]
     @ retryEvents idx m (k + 1) os"
| "retryEvents idx m k (Inl e # os) =
     [LogRetryAttempt idx (k + 1) m, Delay (2 ^ k * 1000)]
     @ (if m \<le> k + 1 then [LogRetryExhausted idx m e] else [])
     @ retryEvents idx m (k + 1) os"

definition slotAfter ::
  "TranscriptionResult option \<Rightarrow> ('s \<times> (error + TranscriptionResult)) list
     \<Rightarrow> TranscriptionResult option"
where
  "slotAfter old h =
     (if h = [] then old else case snd (last h) of Inr r \<Rightarrow> Some r | Inl e \<Rightarrow> old)"

text \<open>
  The sweep of the batches calls the provider once for each chunk, in the order of the
  indices. \<open>sweepState call j s\<close> is the state of the remote service before the call for
  chunk \<open>j\<close> when the sweep starts in the state \<open>s\<close>, and \<open>sweepSlot call j s\<close> the
  entry that this call leaves in the table.
\<close>

definition sweepState :: "(nat \<Rightarrow> 's \<Rightarrow> (error + 'a) \<times> 's) \<Rightarrow> nat \<Rightarrow> 's \<Rightarrow> 's" where
  "sweepState call j s = fold (\<lambda>k s'. snd (call k s')) [0..<j] s"

definition sweepSlot ::
  "(nat \<Rightarrow> 's \<Rightarrow> (error + 'a) \<times> 's) \<Rightarrow> nat \<Rightarrow> 's \<Rightarrow> 'a option"
where
  "sweepSlot call j s =
     (case fst (call j (sweepState call j s)) of Inr r \<Rightarrow> Some r | Inl e \<Rightarrow> None)"

text \<open>The writes of an output file in a trace.\<close>

fun isWriteFile :: "event \<Rightarrow> bool" where
  "isWriteFile (WriteFile path content) = True"
| "isWriteFile _ = False"

section \<open>Concrete inputs\<close>

text \<open>
  An audio file of duration \<open>d\<close> on which every collaborator succeeds; the buffer of
  chunk \<open>i\<close> is \<open>i\<close> bytes long.
\<close>

definition demoAudio :: "rat \<Rightarrow> AudioEnv" where
  "demoAudio d =
     \<lparr> validateAudioFile = (\<lambda>_. None), extractAudio = (\<lambda>p. Inr p),
       detectEncoding = (\<lambda>_. LINEAR16), getAudioDuration = (\<lambda>_. Inr d),
       extractChunk = (\<lambda>_ _ _ i. Inr (replicate i (CHR ''x''))) \<rparr>"

text \<open>
  A remote service whose state counts the calls: \<^verbatim>\<open>recognize\<close> rejects the first
  \<open>k\<close> calls and then answers with one word \<open>hello\<close> from \<open>2.0\<close> to \<open>2.5\<close>
  seconds; \<^verbatim>\<open>predict\<close> always rejects.
\<close>

definition demoResponse :: GResponse where
  "demoResponse =
     GResponse (Some [GResult
       (Some [GAlternative ''hello'' (Some (9/10))
          (Some [GWord ''hello'' (Some (GDuration (Some 2) None))
                   (Some (GDuration (Some 2) (Some 500000000))) None None])])
       (Some ''en-US'')])"

definition demoRemote :: "nat \<Rightarrow> nat Remote" where
  "demoRemote k =
     \<lparr> projectId = Some ''project'', credentials = Some ''key.json'',
       serviceAccountKeyError = None, vertexProject = ''project'', vertexEndpointId = ''endpoint'',
       readFile = (\<lambda>_. Inr []),
       recognize = (\<lambda>s b c. if s < k then (Inl ''unavailable'', Suc s)
                             else (Inr demoResponse, Suc s)),
       predict = (\<lambda>s b c. (Inl ''unavailable'', Suc s)) \<rparr>"

definition demoConfig :: TranscriptionConfig where
  "demoConfig = \<lparr> provider = google_speech, TranscriptionConfig.languageCode = ''en-US'',
                  encoding = None, sampleRateHertz = None, model = None \<rparr>"

definition demoChunk :: AudioChunk where
  "demoChunk = \<lparr> buffer = [], startTime = 10, endTime = 20, index = 1 \<rparr>"

definition demoWorld :: "nat World" where
  "demoWorld = \<lparr> service = 0, trace = [] \<rparr>"

text \<open>
  Two chunks starting at \<open>0\<close> and \<open>10\<close> seconds, and the result of
  \<^verbatim>\<open>transcribeChunk\<close> for a chunk that starts at \<open>offset\<close> when the service answers.
\<close>

definition demoChunks :: "AudioChunk list" where
  "demoChunks = [\<lparr> buffer = [], startTime = 0, endTime = 11, index = 0 \<rparr>,
                 \<lparr> buffer = ''x'', startTime = 10, endTime = 20, index = 1 \<rparr>]"

definition demoResult :: "rat \<Rightarrow> TranscriptionResult" where
  "demoResult offset =
     \<lparr> TranscriptionResult.transcript = ''hello'',
       TranscriptionResult.words =
         Some [\<lparr> WordInfo.word = ''hello'', WordInfo.startTime = 2 + offset,
                 WordInfo.endTime = 5 / 2 + offset,
                 WordInfo.confidence = None, WordInfo.speakerTag = None \<rparr>],
       TranscriptionResult.alternatives = Some [],
       TranscriptionResult.languageCode = Some ''en-US'',
       TranscriptionResult.confidence = Some (9 / 10) \<rparr>"

definition demoEnv :: "rat \<Rightarrow> nat \<Rightarrow> nat Env" where
  "demoEnv d k =
     \<lparr> audioProcessor = demoAudio d, remote = demoRemote k,
       render = (\<lambda>f r. TranscriptionResult.transcript r), detectFormat = (\<lambda>_. TXT) \<rparr>"

text \<open>
  Options as the command line builds them, asking for an output file, five concurrent
  chunks and retries.
\<close>

definition demoOptions :: ProcessingOptions where
  "demoOptions =
     (loadDefaultProcessingOptions ''tmp'')
       \<lparr> chunkDuration := Present (Some 59),
         outputPath := Present (Some ''out.txt''),
         verbose := Present None,
         maxConcurrentChunks := Present (Some 5),
         ProcessingOptions.retryFailedChunks := Present (Some True) \<rparr>"

text \<open>The default options with the retry pass enabled.\<close>

definition demoRetryOptions :: ProcessingOptions where
  "demoRetryOptions =
     (loadDefaultProcessingOptions ''tmp'')
       \<lparr> ProcessingOptions.retryFailedChunks := Present (Some True) \<rparr>"

section \<open>Evaluation on the concrete inputs\<close>

text \<open>
  The provider calls, the segmenter, the table of results and the retry pass on the
  concrete inputs, computed by rewriting with the definitions.
\<close>

lemma demo_transcribeChunk:
  "transcribeChunk (demoRemote 0) google_speech demoChunk demoConfig demoWorld =
     (Inr \<lparr> TranscriptionResult.transcript = ''hello'',
            TranscriptionResult.words =
              Some [\<lparr> WordInfo.word = ''hello'', WordInfo.startTime = 12, WordInfo.endTime = 25 / 2,
                      WordInfo.confidence = None, WordInfo.speakerTag = None \<rparr>],
            TranscriptionResult.alternatives = Some [],
            TranscriptionResult.languageCode = Some ''en-US'',
            TranscriptionResult.confidence = Some (9 / 10) \<rparr>,
      \<lparr> service = 1, trace = [] \<rparr>)"
  by (simp add: transcribeChunk_def g_transcribeChunk_def g_validateConfig_def demoRemote_def
        demoConfig_def demoChunk_def demoWorld_def demoResponse_def falsyStr_def
        g_processResponse_def adjustTimestamps_def adjustWord_def g_wordInfo_def
        g_primaryTranscript_def trim_def isSpace_def)

lemma demo_g_call:
  "transcribeChunk (demoRemote k) google_speech c demoConfig w =
     (if service w < k then (Inl (ChunkTranscriptionFailed ''unavailable''), w\<lparr> service := Suc (service w) \<rparr>)
      else (Inr (demoResult (AudioChunk.startTime c)), w\<lparr> service := Suc (service w) \<rparr>))"
  by (simp add: transcribeChunk_def g_transcribeChunk_def g_validateConfig_def demoRemote_def
        demoConfig_def demoResponse_def falsyStr_def demoResult_def
        g_processResponse_def adjustTimestamps_def adjustWord_def g_wordInfo_def
        g_primaryTranscript_def trim_def isSpace_def)

lemma demo_retry:
  "retryFailedChunks (demoRemote 2) google_speech demoChunks [1] demoConfig [None, None]
      ((loadDefaultProcessingOptions ''tmp'')\<lparr> maxRetries := Present (Some 4) \<rparr>) demoWorld =
     ([None, Some (demoResult 10)],
      \<lparr> service = 3,
        trace = [LogRetryAttempt 1 1 4, Delay 1000, LogRetryAttempt 1 2 4, Delay 2000,
                 LogRetryAttempt 1 3 4, Delay 4000, LogRetrySucceeded 1 3] \<rparr>)"
  by (simp add: retryFailedChunks_def retryChunk.simps transcribeChunkAt_def demo_g_call
        demoChunks_def demoWorld_def loadDefaultProcessingOptions_def numOr_def emit_def emitIf_def)

lemma demo_v_call:
  "transcribeChunk (demoRemote k) vertex_ai c
      (demoConfig\<lparr> encoding := e, sampleRateHertz := r \<rparr>) w =
     (Inl (ChunkTranscriptionFailed ''unavailable''), w\<lparr> service := Suc (service w) \<rparr>)"
  by (simp add: transcribeChunk_def v_transcribeChunk_def v_validateConfig_def demoRemote_def
        demoConfig_def)

lemma demo_split_100:
  "splitAudioIntoChunks (demoAudio 100) ''a.wav'' (Some 59) (Some 1) =
     Some (Inr [\<lparr>buffer = [], startTime = 0, endTime = 59, index = 0\<rparr>,
                \<lparr>buffer = ''x'', startTime = 57, endTime = 100, index = 1\<rparr>])"
  by (simp add: splitAudioIntoChunks_def demoAudio_def splitLoop.simps)

lemma demo_failed_table:
  "resultsTable (demoRemote 0) vertex_ai (loadDefaultProcessingOptions ''tmp'')
      [\<lparr>buffer = [], startTime = 0, endTime = 59, index = 0\<rparr>,
       \<lparr>buffer = ''x'', startTime = 57, endTime = 100, index = 1\<rparr>]
      (demoConfig\<lparr> encoding := Some LINEAR16, sampleRateHertz := Some 16000 \<rparr>) demoWorld =
     ([None, None],
      \<lparr> service = 2,
        trace = [LogChunkFailed 0 (ChunkTranscriptionFailed ''unavailable''),
                 LogChunkFailed 1 (ChunkTranscriptionFailed ''unavailable'')] \<rparr>)"
  by (simp add: resultsTable_def dispatchLoop.simps demo_v_call demoWorld_def
        loadDefaultProcessingOptions_def numOr_def truthy_def emit_def emitIf_def storeResults_def
        upt_rec Let_def)

lemma demo_providerCall:
  "i < length demoChunks \<Longrightarrow>
   providerCall (demoRemote k) google_speech demoChunks demoConfig i s =
     (if s < k then (Inl (ChunkTranscriptionFailed ''unavailable''), Suc s)
      else (Inr (demoResult (AudioChunk.startTime (demoChunks ! i))), Suc s))"
  by (simp add: providerCall_def transcribeChunkAt_def demo_g_call)

lemma attempts_unfold:
  "0 < n \<Longrightarrow> spec_attempts call n s =
     (case call s of
        (Inr r, s') \<Rightarrow> ([(s, Inr r)], s')
      | (Inl e, s') \<Rightarrow> (case spec_attempts call (n - 1) s' of (h, s'') \<Rightarrow> ((s, Inl e) # h, s'')))"
  by (cases n) (auto split: prod.split sum.split)

lemma demo_histories:
  "spec_retry (providerCall (demoRemote 2) google_speech demoChunks demoConfig) 4 [1]
      (service demoWorld) =
     ([(1, [(0, Inl (ChunkTranscriptionFailed ''unavailable'')),
            (1, Inl (ChunkTranscriptionFailed ''unavailable'')),
            (2, Inr (demoResult 10))])], 3)"
proof -
  have l: "Suc 0 < length demoChunks" by (simp add: demoChunks_def)
  have s: "AudioChunk.startTime (demoChunks ! Suc 0) = 10" by (simp add: demoChunks_def)
  show ?thesis
    by (simp add: attempts_unfold demo_providerCall [OF l] s demoWorld_def)
qed

lemma demo_retry_sweep:
  "dispatchLoop (demoRemote 2) google_speech demoRetryOptions demoConfig demoChunks 0
      (replicate (length demoChunks) None) []
      (emitIf (truthy (verbose demoRetryOptions))
         (LogProcessing (length demoChunks) (numOr (maxConcurrentChunks demoRetryOptions) 3))
         demoWorld) =
     ([None, None], [0, 1],
      \<lparr> service = 2,
        trace = [LogChunkFailed 0 (ChunkTranscriptionFailed ''unavailable''),
                 LogChunkFailed 1 (ChunkTranscriptionFailed ''unavailable'')] \<rparr>)"
  by (simp add: dispatchLoop.simps demo_g_call demoChunks_def demoWorld_def demoRetryOptions_def
        loadDefaultProcessingOptions_def numOr_def truthy_def emit_def emitIf_def storeResults_def
        upt_rec Let_def)

lemma demo_retry_table:
  "resultsTable (demoRemote 2) google_speech demoRetryOptions demoChunks demoConfig demoWorld =
     ([Some (demoResult 0), Some (demoResult 10)],
      \<lparr> service = 4,
        trace = [LogChunkFailed 0 (ChunkTranscriptionFailed ''unavailable''),
                 LogChunkFailed 1 (ChunkTranscriptionFailed ''unavailable''),
                 LogRetrying 2,
                 LogRetryAttempt 0 1 3, Delay 1000, LogRetrySucceeded 0 1,
                 LogRetryAttempt 1 1 3, Delay 1000, LogRetrySucceeded 1 1] \<rparr>)"
  by (simp add: resultsTable_def dispatchLoop.simps retryFailedChunks_def retryChunk.simps
        transcribeChunkAt_def demo_g_call demoChunks_def demoWorld_def demoRetryOptions_def
        loadDefaultProcessingOptions_def numOr_def truthy_def emit_def emitIf_def storeResults_def
        upt_rec Let_def)

lemma demo_retry_histories:
  "spec_retry (providerCall (demoRemote 2) google_speech demoChunks demoConfig) 3 [0, 1]
      (service \<lparr> service = 2 :: nat,
                 trace = [LogChunkFailed 0 (ChunkTranscriptionFailed ''unavailable''),
                          LogChunkFailed 1 (ChunkTranscriptionFailed ''unavailable'')] \<rparr>) =
     ([(0, [(2, Inr (demoResult 0))]), (1, [(3, Inr (demoResult 10))])], 4)"
proof -
  have l: "0 < length demoChunks" "Suc 0 < length demoChunks" by (simp_all add: demoChunks_def)
  have s: "AudioChunk.startTime (demoChunks ! 0) = 0" "AudioChunk.startTime (demoChunks ! Suc 0) = 10"
    by (simp_all add: demoChunks_def)
  show ?thesis
    by (simp add: attempts_unfold demo_providerCall [OF l(1)] demo_providerCall [OF l(2)] s)
qed

text \<open>
  The binary64 numbers nearest to some decimal numbers, and the segmenter in binary64
  arithmetic on the numbers nearest to \<open>15.1\<close>, \<open>13.8\<close> and \<open>5.8\<close>.
\<close>

lemma demo_round64:
  "round64 (151 / 10) = 8500544296661811 / 562949953421312"
  "round64 (69 / 5) = 3884354678607053 / 281474976710656"
  "round64 (29 / 5) = 6530219459687219 / 1125899906842624"
  "round64 (2001 / 10) = 7040392854975283 / 35184372088832"
  "round64 (7040392854975283 / 35184372088832) = 7040392854975283 / 35184372088832"
  by code_simp+

lemma demo_split64:
  "splitAudioIntoChunks64 (demoAudio (8500544296661811 / 562949953421312)) ''a.wav''
      (Some (3884354678607053 / 281474976710656)) (Some (6530219459687219 / 1125899906842624)) =
     Some (Inr [\<lparr>buffer = [], startTime = 0,
                  endTime = 3884354678607053 / 281474976710656, index = 0\<rparr>,
                \<lparr>buffer = ''x'', startTime = 2476979795053773 / 1125899906842624,
                  endTime = 4250272148330905 / 281474976710656, index = 1\<rparr>])"
  by code_simp

text \<open>
  On the whole-number inputs used below, the loop in binary64 arithmetic returns what the
  loop over exact numbers returns.
\<close>

lemma demo_split64_whole:
  "splitAudioIntoChunks64 (demoAudio 100) ''a.wav'' (Some 59) (Some (- 1)) =
     splitAudioIntoChunks (demoAudio 100) ''a.wav'' (Some 59) (Some (- 1))"
  "splitAudioIntoChunks64 (demoAudio 10) ''a.wav'' (Some 10) (Some 1) =
     splitAudioIntoChunks (demoAudio 10) ''a.wav'' (Some 10) (Some 1)"
  "splitAudioIntoChunks64 (demoAudio 5) ''a.wav'' (Some 3) (Some 2) =
     splitAudioIntoChunks (demoAudio 5) ''a.wav'' (Some 3) (Some 2)"
  "splitAudioIntoChunks64 (demoAudio 100) ''a.wav'' (Some 59) (Some 1) =
     splitAudioIntoChunks (demoAudio 100) ''a.wav'' (Some 59) (Some 1)"
  by code_simp+

section \<open>Properties of the segmenter\<close>

subsection \<open>The loop: termination and invariants\<close>

text \<open>
  With a positive step \<open>chunkDuration - overlap\<close> the loop runs
  \<open>\<lceil>(duration - currentTime) / step\<rceil>\<close> more times.
\<close>

lemma iter_count_step:
  fixes d t s :: rat
  assumes "0 < s" "t < d" "Suc n = nat \<lceil>(d - t) / s\<rceil>"
  shows "n = nat \<lceil>(d - (t + s)) / s\<rceil>"
proof -
  have "(d - (t + s)) / s = (d - t) / s - 1"
    using assms(1) by (simp add: field_simps)
  then have "\<lceil>(d - (t + s)) / s\<rceil> = \<lceil>(d - t) / s\<rceil> - 1"
    by simp
  with assms(3) show ?thesis by linarith
qed

lemma iter_count_zero:
  fixes d t s :: rat
  assumes "0 < s" "0 = nat \<lceil>(d - t) / s\<rceil>"
  shows "\<not> t < d"
proof
  assume "t < d"
  then have "0 < (d - t) / s" using assms(1) by simp
  then have "0 < \<lceil>(d - t) / s\<rceil>" by simp
  with assms(2) show False by simp
qed

lemma splitLoop_returns:
  assumes "0 < cd - ov"
  shows "\<exists>r. splitLoop X d cd ov t i acc = Some r"
proof (induction "nat \<lceil>(d - t) / (cd - ov)\<rceil>" arbitrary: t i acc)
  case 0
  then have "\<not> t < d" using iter_count_zero [OF assms] by blast
  then show ?case by (subst splitLoop.simps) simp
next
  case (Suc n)
  show ?case
  proof (cases "t < d")
    case False
    then show ?thesis by (subst splitLoop.simps) simp
  next
    case True
    have n: "n = nat \<lceil>(d - (t + (cd - ov))) / (cd - ov)\<rceil>"
      using iter_count_step [OF assms True Suc(2)] .
    show ?thesis
    proof (cases "X (max 0 (t - ov)) (min cd (d - max 0 (t - ov))) i")
      case (Inl e)
      then show ?thesis using True by (subst splitLoop.simps) (simp add: Let_def)
    next
      case (Inr b)
      from Suc(1) [OF n] show ?thesis
        using True Inr by (subst splitLoop.simps) (simp add: Let_def)
    qed
  qed
qed

lemma splitLoop_invariant:
  assumes step: "0 < cd - ov"
    and run: "splitLoop X d cd ov t i acc = Some (Inr chunks)"
    and init: "I t i acc"
    and pres: "\<And>t i acc b. I t i acc \<Longrightarrow> t < d \<Longrightarrow>
        X (max 0 (t - ov)) (min cd (d - max 0 (t - ov))) i = Inr b \<Longrightarrow>
        I (t + (cd - ov)) (i + 1)
          (acc @ [\<lparr> buffer = b, startTime = max 0 (t - ov),
                    endTime = max 0 (t - ov) + min cd (d - max 0 (t - ov)), index = i \<rparr>])"
  shows "\<exists>t' i'. I t' i' chunks \<and> d \<le> t'"
  using run init
proof (induction "nat \<lceil>(d - t) / (cd - ov)\<rceil>" arbitrary: t i acc)
  case 0
  then have "\<not> t < d" using iter_count_zero [OF step] by blast
  with 0(2) have "chunks = acc" by (subst (asm) splitLoop.simps) simp
  with 0(3) \<open>\<not> t < d\<close> show ?case by auto
next
  case (Suc n)
  show ?case
  proof (cases "t < d")
    case False
    with Suc(3) have "chunks = acc" by (subst (asm) splitLoop.simps) simp
    with Suc(4) False show ?thesis by auto
  next
    case True
    have n: "n = nat \<lceil>(d - (t + (cd - ov))) / (cd - ov)\<rceil>"
      using iter_count_step [OF step True Suc(2)] .
    show ?thesis
    proof (cases "X (max 0 (t - ov)) (min cd (d - max 0 (t - ov))) i")
      case (Inl e)
      with True Suc(3) show ?thesis by (subst (asm) splitLoop.simps) (simp add: Let_def)
    next
      case (Inr b)
      let ?c = "\<lparr> buffer = b, startTime = max 0 (t - ov),
                    endTime = max 0 (t - ov) + min cd (d - max 0 (t - ov)), index = i \<rparr>"
      from True Inr Suc(3)
      have "splitLoop X d cd ov (t + (cd - ov)) (i + 1) (acc @ [?c]) = Some (Inr chunks)"
        by (subst (asm) splitLoop.simps) (simp add: Let_def)
      moreover have "I (t + (cd - ov)) (i + 1) (acc @ [?c])"
        using pres [OF Suc(4) True Inr] .
      ultimately show ?thesis using Suc(1) [OF n] by blast
    qed
  qed
qed

lemma splitLoop_total:
  assumes step: "0 < cd - ov"
    and ok: "\<And>s l k. \<exists>b. X s l k = Inr b"
  shows "\<exists>chunks. splitLoop X d cd ov t i acc = Some (Inr chunks)"
proof (induction "nat \<lceil>(d - t) / (cd - ov)\<rceil>" arbitrary: t i acc)
  case 0
  then have "\<not> t < d" using iter_count_zero [OF step] by blast
  then show ?case by (subst splitLoop.simps) simp
next
  case (Suc n)
  show ?case
  proof (cases "t < d")
    case False
    then show ?thesis by (subst splitLoop.simps) simp
  next
    case True
    have n: "n = nat \<lceil>(d - (t + (cd - ov))) / (cd - ov)\<rceil>"
      using iter_count_step [OF step True Suc(2)] .
    obtain b where b: "X (max 0 (t - ov)) (min cd (d - max 0 (t - ov))) i = Inr b"
      using ok by blast
    from Suc(1) [OF n] show ?thesis
      using True b by (subst splitLoop.simps) (simp add: Let_def)
  qed
qed

lemma ivl_join:
  fixes a b s e :: rat
  assumes "a \<le> s" "s \<le> b" "b \<le> e"
  shows "{a..b} \<union> {s..e} = {a..e}"
  using assms by auto

lemma splitLoop_cover:
  assumes step: "0 < cd - ov" and ov: "0 \<le> ov" and d: "0 < d"
    and run: "splitLoop X d cd ov 0 0 [] = Some (Inr chunks)"
  shows "(\<Union>c\<in>set chunks. {AudioChunk.startTime c .. AudioChunk.endTime c}) = {0..d} \<and>
         (\<forall>c\<in>set chunks. AudioChunk.startTime c < AudioChunk.endTime c)"
proof -
  let ?U = "\<lambda>acc :: AudioChunk list. (\<Union>c\<in>set acc. {AudioChunk.startTime c .. AudioChunk.endTime c})"
  let ?P = "\<lambda>acc :: AudioChunk list. (\<forall>c\<in>set acc. AudioChunk.startTime c < AudioChunk.endTime c)"
  let ?E = "\<lambda>t. min (max 0 (t - cd) + cd) d"
  let ?I = "\<lambda>t (i::nat) (acc :: AudioChunk list). (acc = [] \<and> t = 0) \<or>
              (acc \<noteq> [] \<and> 0 < t \<and> ?U acc = {0..?E t} \<and> ?P acc)"
  have "\<exists>t' i'. ?I t' i' chunks \<and> d \<le> t'"
  proof (rule splitLoop_invariant [where I = ?I, OF step run])
    show "?I 0 0 []" by simp
  next
    fix t i acc b
    assume inv: "?I t i acc" and lt: "t < d"
    let ?s = "max 0 (t - ov)"
    let ?e = "?s + min cd (d - ?s)"
    let ?c = "\<lparr> buffer = b, startTime = ?s, endTime = ?e, index = i \<rparr>"
    have e: "?e = min (?s + cd) d" by (simp add: min_def)
    have s0: "0 \<le> ?s" by simp
    have sd: "?s < d" using lt d ov by (simp add: max_def)
    have pos: "?s < ?e" using sd step ov by (simp add: min_def)
    have E': "?E (t + (cd - ov)) = ?e" unfolding e by (simp add: algebra_simps)
    have U: "?U (acc @ [?c]) = ?U acc \<union> {?s..?e}" by auto
    have P: "?P acc \<Longrightarrow> ?P (acc @ [?c])" using pos by auto
    from inv show "?I (t + (cd - ov)) (i + 1) (acc @ [?c])"
    proof
      assume a: "acc = [] \<and> t = 0"
      then have "?s = 0" using ov by simp
      then have "?U (acc @ [?c]) = {0..?e}" using a by simp
      moreover have "0 < t + (cd - ov)" using a step by simp
      moreover have "?P (acc @ [?c])" using a pos by simp
      ultimately show ?thesis using E' by simp
    next
      assume a: "acc \<noteq> [] \<and> 0 < t \<and> ?U acc = {0..?E t} \<and> ?P acc"
      have le1: "?s \<le> ?E t" using sd a step ov by (simp add: max_def min_def)
      have le2: "?E t \<le> ?e" unfolding e using step by (simp add: max_def min_def)
      have "?U (acc @ [?c]) = {0..?E t} \<union> {?s..?e}" using U a by simp
      also have "\<dots> = {0..?e}" using ivl_join [OF s0 le1 le2] .
      finally have "?U (acc @ [?c]) = {0..?e}" .
      moreover have "0 < t + (cd - ov)" using a step by simp
      moreover have "?P (acc @ [?c])" using a P by blast
      ultimately show ?thesis using E' by simp
    qed
  qed
  then obtain t' i' where I: "?I t' i' chunks" and ex: "d \<le> t'" by blast
  from ex d have "t' \<noteq> 0" by auto
  with I have ne: "chunks \<noteq> []" and U: "?U chunks = {0..?E t'}" and P: "?P chunks" by auto
  have "?E t' = d" using ex step ov by (simp add: max_def min_def)
  with U P show ?thesis by simp
qed

lemma splitLoop_closed_form:
  assumes step: "0 < cd - ov"
    and run: "splitLoop X d cd ov 0 0 [] = Some (Inr chunks)"
  shows "d \<le> of_nat (length chunks) * (cd - ov) \<and>
         (\<forall>k<length chunks.
            AudioChunk.startTime (chunks ! k) = max 0 (of_nat k * (cd - ov) - ov) \<and>
            AudioChunk.endTime (chunks ! k) =
              AudioChunk.startTime (chunks ! k) + min cd (d - AudioChunk.startTime (chunks ! k)) \<and>
            index (chunks ! k) = k \<and> of_nat k * (cd - ov) < d)"
proof -
  let ?Q = "\<lambda>(acc :: AudioChunk list) k.
            AudioChunk.startTime (acc ! k) = max 0 (of_nat k * (cd - ov) - ov) \<and>
            AudioChunk.endTime (acc ! k) =
              AudioChunk.startTime (acc ! k) + min cd (d - AudioChunk.startTime (acc ! k)) \<and>
            index (acc ! k) = k \<and> of_nat k * (cd - ov) < d"
  let ?I = "\<lambda>t (i::nat) (acc :: AudioChunk list).
              i = length acc \<and> t = of_nat i * (cd - ov) \<and> (\<forall>k<length acc. ?Q acc k)"
  have "\<exists>t' i'. ?I t' i' chunks \<and> d \<le> t'"
  proof (rule splitLoop_invariant [where I = ?I, OF step run])
    show "?I 0 0 []" by simp
  next
    fix t i acc b
    assume inv: "?I t i acc" and lt: "t < d"
    let ?s = "max 0 (t - ov)"
    let ?c = "\<lparr> buffer = b, startTime = ?s, endTime = ?s + min cd (d - ?s), index = i \<rparr>"
    have "?Q (acc @ [?c]) k" if "k < length (acc @ [?c])" for k
    proof (cases "k < length acc")
      case True
      with inv show ?thesis by (simp add: nth_append)
    next
      case False
      with that have "k = length acc" by simp
      with inv lt show ?thesis by (simp add: nth_append)
    qed
    moreover from inv have "t = of_nat i * (cd - ov)" by simp
    then have "t + (cd - ov) = of_nat (i + 1) * (cd - ov)"
      by (simp add: algebra_simps)
    ultimately show "?I (t + (cd - ov)) (i + 1) (acc @ [?c])"
      using inv by simp
  qed
  then show ?thesis by auto
qed

lemma splitLoop_diverges:
  assumes ok: "\<And>s l k. \<exists>b. X s l k = Inr b" and d: "0 < d" and step: "cd \<le> ov"
  shows "splitLoop X d cd ov 0 0 [] = None"
proof (rule ccontr)
  assume "splitLoop X d cd ov 0 0 [] \<noteq> None"
  then obtain r where r: "splitLoop X d cd ov 0 0 [] = Some r" by blast
  let ?P = "\<lambda>(X' :: rat \<Rightarrow> rat \<Rightarrow> nat \<Rightarrow> error + Buffer) (d'::rat) (cd'::rat) (ov'::rat) (t::rat)
              (i::nat) (acc::AudioChunk list) (y :: error + AudioChunk list).
              \<not> (X' = X \<and> d' = d \<and> cd' = cd \<and> ov' = ov \<and> t \<le> 0)"
  have "?P X d cd ov 0 0 [] r"
  proof (rule splitLoop.raw_induct [where P = ?P, OF _ r])
    fix f X' d' cd' ov' t i acc y
    assume IH: "\<And>X' d' cd' ov' t i acc y. f X' d' cd' ov' t i acc = Some y \<Longrightarrow> ?P X' d' cd' ov' t i acc y"
      and eq: "(if t < d' then
        (let startTime = max 0 (t - ov');
             chunkLength = min cd' (d' - startTime)
         in case X' startTime chunkLength i of
              Inl e \<Rightarrow> Some (Inl e)
            | Inr buf \<Rightarrow>
                f X' d' cd' ov' (t + (cd' - ov')) (i + 1)
                  (acc @ [\<lparr> buffer = buf, startTime = startTime,
                               endTime = startTime + chunkLength, index = i \<rparr>]))
      else Some (Inr acc)) = Some y"
    show "?P X' d' cd' ov' t i acc y"
    proof
      assume a: "X' = X \<and> d' = d \<and> cd' = cd \<and> ov' = ov \<and> t \<le> 0"
      obtain b where b: "X (max 0 (t - ov)) (min cd (d - max 0 (t - ov))) i = Inr b"
        using ok by blast
      from a d have lt: "t < d" by simp
      from eq a lt b obtain acc' where
        "f X d cd ov (t + (cd - ov)) (i + 1) acc' = Some y"
        by (simp add: Let_def)
      from IH [OF this] a step show False by simp
    qed
  qed
  then show False by simp
qed

subsection \<open>Operations of the loop that do not round\<close>

text \<open>
  A product \<open>N * 2\<^sup>k\<close> with \<open>\<bar>N\<bar> < 2\<^sup>5\<^sup>3\<close> and \<open>k \<ge> -1074\<close> is a binary64 number, and
  every binary64 number is such a product. So the whole numbers below \<open>2\<^sup>5\<^sup>3\<close> are
  binary64 numbers, as is the difference of a binary64 number and a smaller whole number.
  With a binary64 duration of at most \<open>2\<^sup>5\<^sup>2\<close> and whole numbers as chunk length and
  overlap, no operation of the loop rounds, and the loop in binary64 arithmetic is the
  loop over exact numbers.
\<close>

lemma roundEven_of_int: "roundEven (of_int z) = z"
  by (simp add: roundEven_def)

lemma two_powi_less_cancel:
  assumes "(2::rat) powi a < 2 powi b"
  shows "a < b"
proof (rule ccontr)
  assume "\<not> a < b"
  then have "b \<le> a" by simp
  from power_int_increasing [OF this, of "2::rat"] assms show False by simp
qed

lemma bitlen_pos: "0 < p \<Longrightarrow> 0 < bitlen p"
  using bitlen_eq_zero_iff [of p] bitlen_nonneg [of p] by linarith

lemma bitlen_rat_bounds:
  assumes "0 < p"
  shows "(2::rat) powi (bitlen p - 1) \<le> of_int p" and "of_int p < (2::rat) powi bitlen p"
proof -
  from bitlen_bounds [OF assms]
  have a: "2 ^ nat (bitlen p - 1) \<le> p" and b: "p < 2 ^ nat (bitlen p)" by simp_all
  from bitlen_pos [OF assms] have pos: "0 \<le> bitlen p - 1" "0 \<le> bitlen p" by simp_all
  from a have "(of_int (2 ^ nat (bitlen p - 1)) :: rat) \<le> of_int p" by (simp only: of_int_le_iff)
  then show "(2::rat) powi (bitlen p - 1) \<le> of_int p"
    by (simp add: power_int_nonneg_exp [OF pos(1)])
  from b have "(of_int p :: rat) < of_int (2 ^ nat (bitlen p))" by (simp only: of_int_less_iff)
  then show "of_int p < (2::rat) powi bitlen p"
    by (simp add: power_int_nonneg_exp [OF pos(2)])
qed

lemma exponent64_bounds:
  assumes "x \<noteq> 0"
  obtains f where "exponent64 x = max f (- 1022)" and "2 powi f \<le> \<bar>x\<bar>"
    and "\<bar>x\<bar> < 2 powi (f + 1)"
proof -
  obtain p q where pq: "quotient_of \<bar>x\<bar> = (p, q)" by (cases "quotient_of \<bar>x\<bar>")
  from quotient_of_denom_pos [OF pq] have q: "0 < q" .
  from quotient_of_div [OF pq] have x: "\<bar>x\<bar> = of_int p / of_int q" .
  from assms have "0 < \<bar>x\<bar>" by simp
  with x q have p: "0 < p" by (simp add: zero_less_divide_iff)
  let ?e = "bitlen p - bitlen q"
  note bp = bitlen_rat_bounds [OF p] and bq = bitlen_rat_bounds [OF q]
  have "2 powi (?e - 1) = (2::rat) powi (bitlen p - 1) / 2 powi bitlen q"
    using power_int_diff [of "2::rat" "bitlen p - 1" "bitlen q"] by (simp add: algebra_simps)
  also have "\<dots> \<le> of_int p / of_int q"
    using bp(1) bq(2) p q by (intro frac_le) simp_all
  finally have lo: "2 powi (?e - 1) \<le> \<bar>x\<bar>" using x by simp
  have "of_int p / of_int q < (2::rat) powi bitlen p / 2 powi (bitlen q - 1)"
    using bp(2) bq(1) p q by (intro frac_less) simp_all
  also have "\<dots> = 2 powi (?e + 1)"
    using power_int_diff [of "2::rat" "bitlen p" "bitlen q - 1"] by (simp add: algebra_simps)
  finally have hi: "\<bar>x\<bar> < 2 powi (?e + 1)" using x by simp
  have ex: "exponent64 x = max (if 2 powi ?e \<le> \<bar>x\<bar> then ?e else ?e - 1) (- 1022)"
    by (simp add: exponent64_def pq Let_def)
  show thesis
  proof (cases "2 powi ?e \<le> \<bar>x\<bar>")
    case True
    with ex hi show ?thesis by (intro that [of ?e]) simp_all
  next
    case False
    with ex lo show ?thesis by (intro that [of "?e - 1"]) simp_all
  qed
qed

lemma round64_exact:
  assumes "\<bar>N\<bar> < 2 ^ 53" and "- 1074 \<le> k"
  shows "round64 (of_int N * 2 powi k) = of_int N * 2 powi k"
proof (cases "N = 0")
  case True
  then show ?thesis by (simp add: round64_def)
next
  case False
  define x :: rat where "x = of_int N * 2 powi k"
  define e where "e = exponent64 x"
  have x0: "x \<noteq> 0" using False by (simp add: x_def)
  obtain f where e: "e = max f (- 1022)" and lo: "2 powi f \<le> \<bar>x\<bar>"
    unfolding e_def by (rule exponent64_bounds [OF x0])
  have "(of_int \<bar>N\<bar> :: rat) < of_int (2 ^ 53)" using assms(1) by (simp only: of_int_less_iff)
  then have "(of_int \<bar>N\<bar> :: rat) * 2 powi k < 2 ^ 53 * 2 powi k"
    by (intro mult_strict_right_mono) simp_all
  also have "\<dots> = 2 powi (k + 53)"
    using power_int_add [of "2::rat" 53 k] by (simp add: algebra_simps)
  finally have "\<bar>x\<bar> < 2 powi (k + 53)" by (simp add: x_def abs_mult)
  with lo have "(2::rat) powi f < 2 powi (k + 53)" by simp
  from two_powi_less_cancel [OF this] have "f < k + 53" .
  with e assms(2) have le: "e \<le> k + 52" by simp
  define j where "j = nat (k + 52 - e)"
  have kj: "int j + (e - 52) = k" using le by (simp add: j_def)
  have "(2::rat) powi (int j + (e - 52)) = 2 ^ j * 2 powi (e - 52)"
    using power_int_add [of "2::rat" "int j" "e - 52"] by simp
  then have pk: "(2::rat) powi k = 2 ^ j * 2 powi (e - 52)" by (simp only: kj)
  have q: "x / 2 powi (e - 52) = of_int (N * 2 ^ j)"
    by (simp add: x_def pk)
  have "round64 x = of_int (roundEven (x / 2 powi (e - 52))) * 2 powi (e - 52)"
    using x0 by (simp add: round64_def Let_def e_def)
  also have "\<dots> = of_int (N * 2 ^ j) * 2 powi (e - 52)"
    by (simp only: q roundEven_of_int)
  also have "\<dots> = x" by (simp add: x_def pk)
  finally show ?thesis by (simp only: x_def)
qed

lemma round64_of_int:
  assumes "\<bar>N\<bar> < 2 ^ 53"
  shows "round64 (of_int N) = of_int N"
  using round64_exact [OF assms, of 0] by simp

lemma round64_of_nat:
  assumes "n < 2 ^ 53"
  shows "round64 (of_nat n) = of_nat n"
proof -
  from assms have "\<bar>int n\<bar> < 2 ^ 53" by (simp add: of_nat_less_numeral_power_cancel_iff)
  from round64_of_int [OF this] show ?thesis by simp
qed

lemma binary64_decompose:
  assumes "round64 d = d" and "d \<noteq> 0"
  obtains M k where "d = of_int M * 2 powi k" and "\<bar>M\<bar> < 2 ^ 53" and "- 1074 \<le> k"
proof -
  obtain f where e: "exponent64 d = max f (- 1022)" and hi: "\<bar>d\<bar> < 2 powi (f + 1)"
    by (rule exponent64_bounds [OF assms(2)])
  let ?k = "exponent64 d - 52"
  let ?M = "roundEven (d / 2 powi ?k)"
  from assms have d: "d = of_int ?M * 2 powi ?k" by (simp add: round64_def Let_def)
  have k: "- 1074 \<le> ?k" using e by simp
  have "f + 1 \<le> ?k + 53" using e by simp
  from power_int_increasing [OF this, of "2::rat"] hi
  have "\<bar>d\<bar> < 2 powi (?k + 53)" by simp
  also have "\<dots> = 2 ^ 53 * 2 powi ?k"
    using power_int_add [of "2::rat" 53 ?k] by (simp add: algebra_simps)
  finally have "\<bar>of_int ?M * 2 powi ?k :: rat\<bar> < 2 ^ 53 * 2 powi ?k" using d by simp
  then have lt: "(of_int \<bar>?M\<bar> :: rat) * 2 powi ?k < 2 ^ 53 * 2 powi ?k" by (simp add: abs_mult)
  have pos: "(0::rat) < 2 powi ?k" by simp
  from lt have "(of_int \<bar>?M\<bar> :: rat) < 2 ^ 53"
    by (simp only: mult_less_cancel_right_pos [OF pos])
  then have "(of_int \<bar>?M\<bar> :: rat) < of_int (2 ^ 53)" by simp
  then have Mb: "\<bar>?M\<bar> < 2 ^ 53" by (simp only: of_int_less_iff)
  show thesis by (rule that [OF d Mb k])
qed

lemma round64_sub_nat:
  assumes "round64 d = d" and "of_nat s \<le> d" and "d \<le> 2 ^ 52"
  shows "round64 (d - of_nat s) = d - of_nat s"
proof (cases "d = 0")
  case True
  with assms(2) have "s = 0" by simp
  with True show ?thesis by (simp add: round64_def)
next
  case False
  obtain M k where d: "d = of_int M * 2 powi k" and M: "\<bar>M\<bar> < 2 ^ 53" and k: "- 1074 \<le> k"
    by (rule binary64_decompose [OF assms(1) False])
  show ?thesis
  proof (cases "0 \<le> k")
    case True
    have di: "d = of_int (M * 2 ^ nat k)" using d True by (simp add: power_int_nonneg_exp)
    let ?N = "M * 2 ^ nat k - int s"
    have eq: "d - of_nat s = of_int ?N" using di by simp
    have "(0::rat) \<le> of_int ?N" using assms(2) eq by simp
    then have n0: "0 \<le> ?N" by (simp only: of_int_0_le_iff)
    have "(of_int ?N :: rat) \<le> 2 ^ 52" using assms(3) eq by simp
    then have "(of_int ?N :: rat) \<le> of_int (2 ^ 52)" by simp
    then have "?N \<le> 2 ^ 52" by (simp only: of_int_le_iff)
    with n0 have "\<bar>?N\<bar> < 2 ^ 53" by simp
    from round64_of_int [OF this] eq show ?thesis by simp
  next
    case False
    define j where "j = nat (- k)"
    have kj: "k = - int j" using False by (simp add: j_def)
    have pk: "(2::rat) powi k * 2 ^ j = 1" by (simp add: kj power_int_minus)
    let ?N = "M - int s * 2 ^ j"
    have "of_int ?N * (2::rat) powi k = of_int M * 2 powi k - of_nat s * (2 ^ j * 2 powi k)"
      by (simp add: algebra_simps)
    also have "\<dots> = d - of_nat s" using pk d by (simp add: mult.commute)
    finally have eq: "d - of_nat s = of_int ?N * 2 powi k" by simp
    have "(0::rat) \<le> of_int ?N * 2 powi k" using assms(2) eq by simp
    moreover have "(0::rat) < 2 powi k" by simp
    ultimately have "(0::rat) \<le> of_int ?N" by (auto simp: zero_le_mult_iff)
    then have n0: "0 \<le> ?N" by (simp only: of_int_0_le_iff)
    have "?N \<le> M" by simp
    with M n0 have "\<bar>?N\<bar> < 2 ^ 53" by linarith
    from round64_exact [OF this k] eq show ?thesis by simp
  qed
qed

lemma splitLoop64_exact:
  assumes d: "round64 d = d" "d \<le> 2 ^ 52" and c: "ov < cd" "cd \<le> 2 ^ 52"
  shows "splitLoop64 X d (of_nat cd) (of_nat ov) (of_nat t) i acc =
         splitLoop X d (of_nat cd) (of_nat ov) (of_nat t) i acc"
proof (induction "nat \<lceil>(d - of_nat t) / (of_nat cd - of_nat ov)\<rceil>" arbitrary: t i acc)
  case 0
  have step: "(0::rat) < of_nat cd - of_nat ov" using c(1) by simp
  from iter_count_zero [OF step 0(1)] have "\<not> of_nat t < d" .
  then show ?case by (subst splitLoop64.simps, subst splitLoop.simps) simp
next
  case (Suc n)
  have step: "(0::rat) < of_nat cd - of_nat ov" using c(1) by simp
  show ?case
  proof (cases "of_nat t < d")
    case False
    then show ?thesis by (subst splitLoop64.simps, subst splitLoop.simps) simp
  next
    case True
    let ?T = "of_nat t :: rat" and ?C = "of_nat cd :: rat" and ?O = "of_nat ov :: rat"
    let ?s = "of_nat (t - ov) :: rat"
    from True d(2) have "?T < 2 ^ 52" by simp
    then have t52: "t < 2 ^ 52" by simp
    have r1: "round64 (?T - ?O) = ?T - ?O"
    proof -
      have "\<bar>int t - int ov\<bar> < 2 ^ 53" using t52 c by simp
      from round64_of_int [OF this] show ?thesis by simp
    qed
    have s: "max 0 (?T - ?O) = ?s" by (cases "ov \<le> t") (simp_all add: of_nat_diff max_def)
    have "?s \<le> ?T" by simp
    with True have sle: "?s \<le> d" by simp
    have r2: "round64 (d - ?s) = d - ?s" by (rule round64_sub_nat [OF d(1) sle d(2)])
    have r3: "round64 (?s + min ?C (d - ?s)) = ?s + min ?C (d - ?s)"
    proof (cases "?C \<le> d - ?s")
      case True
      then have eq: "?s + min ?C (d - ?s) = of_nat (t - ov + cd)" by simp
      have "t - ov + cd < 2 ^ 53" using t52 c(2) by simp
      from round64_of_nat [OF this] show ?thesis by (simp only: eq)
    next
      case False
      then have eq: "?s + min ?C (d - ?s) = d" by simp
      from d(1) show ?thesis by (simp only: eq)
    qed
    have r4: "round64 (?C - ?O) = ?C - ?O"
    proof -
      have eq: "?C - ?O = of_nat (cd - ov)" using c(1) by (simp add: of_nat_diff)
      have "cd - ov < 2 ^ 53" using c(2) by simp
      from round64_of_nat [OF this] show ?thesis by (simp only: eq)
    qed
    have nx: "?T + (?C - ?O) = of_nat (t + (cd - ov))" using c(1) by (simp add: of_nat_diff)
    have r5: "round64 (of_nat (t + (cd - ov))) = (of_nat (t + (cd - ov)) :: rat)"
    proof -
      have "t + (cd - ov) < 2 ^ 53" using t52 c(2) by simp
      then show ?thesis by (rule round64_of_nat)
    qed
    have n: "n = nat \<lceil>(d - of_nat (t + (cd - ov))) / (?C - ?O)\<rceil>"
      using iter_count_step [OF step True Suc(2)] by (simp only: nx)
    note IH = Suc(1) [OF n]
    show ?thesis
      by (subst splitLoop64.simps, subst splitLoop.simps)
         (simp only: Let_def r1 s r2 r3 r4 nx r5 IH cong: sum.case_cong if_cong)
  qed
qed

lemma split64_exact:
  assumes "getAudioDuration A p = Inr d" and "round64 d = d" and "d \<le> 2 ^ 52"
    and "ov < cd" and "cd \<le> 2 ^ 52"
  shows "splitAudioIntoChunks64 A p (Some (of_nat cd)) (Some (of_nat ov)) =
         splitAudioIntoChunks A p (Some (of_nat cd)) (Some (of_nat ov))"
  using splitLoop64_exact [OF assms(2,3,4,5), of "extractChunk A p" 0 0 "[]"] assms(1)
  by (simp add: splitAudioIntoChunks64_def splitAudioIntoChunks_def)

text \<open>
  For such inputs, what is proved below of \<open>splitAudioIntoChunks\<close>, the method over
  exact numbers, holds of the method in the arithmetic of the source as well.
\<close>

subsection \<open>Coverage\<close>

lemma split_returns:
  assumes "ov < cd"
  shows "\<exists>r. splitAudioIntoChunks A p (Some cd) (Some ov) = Some r"
proof (cases "getAudioDuration A p")
  case (Inl e)
  then show ?thesis by (simp add: splitAudioIntoChunks_def)
next
  case (Inr d)
  have "0 < cd - ov" using assms by simp
  from splitLoop_returns [OF this] Inr show ?thesis
    by (simp add: splitAudioIntoChunks_def)
qed

lemma split_total:
  assumes "ov < cd" and "getAudioDuration A p = Inr d"
    and "\<forall>s l k. \<exists>b. extractChunk A p s l k = Inr b"
  shows "\<exists>chunks. splitAudioIntoChunks A p (Some cd) (Some ov) = Some (Inr chunks)"
proof -
  have "0 < cd - ov" using assms(1) by simp
  from splitLoop_total [OF this, of "extractChunk A p"] assms(2,3) show ?thesis
    by (simp add: splitAudioIntoChunks_def)
qed

lemma split_run:
  assumes "getAudioDuration A p = Inr d"
    and "splitAudioIntoChunks A p (Some cd) (Some ov) = Some (Inr chunks)"
  shows "splitLoop (extractChunk A p) d cd ov 0 0 [] = Some (Inr chunks)"
  using assms by (simp add: splitAudioIntoChunks_def)

lemma split_cover:
  assumes "getAudioDuration A p = Inr d" and "0 < d" and "ov < cd" and "0 \<le> ov"
  shows "(\<exists>r. splitAudioIntoChunks A p (Some cd) (Some ov) = Some r) \<and>
         ((\<forall>s l k. \<exists>b. extractChunk A p s l k = Inr b) \<longrightarrow>
            (\<exists>chunks. splitAudioIntoChunks A p (Some cd) (Some ov) = Some (Inr chunks))) \<and>
         (\<forall>chunks. splitAudioIntoChunks A p (Some cd) (Some ov) = Some (Inr chunks) \<longrightarrow>
            (\<Union>c\<in>set chunks. {AudioChunk.startTime c .. AudioChunk.endTime c}) = {0..d} \<and>
            (\<forall>c\<in>set chunks. AudioChunk.startTime c < AudioChunk.endTime c))"
proof (intro conjI allI impI)
  show "\<exists>r. splitAudioIntoChunks A p (Some cd) (Some ov) = Some r"
    using split_returns [OF assms(3)] .
next
  assume "\<forall>s l k. \<exists>b. extractChunk A p s l k = Inr b"
  then show "\<exists>chunks. splitAudioIntoChunks A p (Some cd) (Some ov) = Some (Inr chunks)"
    using split_total [OF assms(3) assms(1)] by blast
next
  fix chunks
  assume run: "splitAudioIntoChunks A p (Some cd) (Some ov) = Some (Inr chunks)"
  have step: "0 < cd - ov" using assms(3) by simp
  from splitLoop_cover [OF step assms(4) assms(2) split_run [OF assms(1) run]]
  show "(\<Union>c\<in>set chunks. {AudioChunk.startTime c .. AudioChunk.endTime c}) = {0..d}"
    and "\<forall>c\<in>set chunks. AudioChunk.startTime c < AudioChunk.endTime c"
    by blast+
qed

text \<open>
  Claim C2, as stated, fails in the arithmetic of the source. With the binary64 numbers
  nearest to \<open>15.1\<close>, \<open>13.8\<close> and \<open>5.8\<close> as duration, chunk length and overlap, the
  loop returns two chunks, \<open>[0, 13.8]\<close> and \<open>[2.2, 15.099999999999998]\<close>: the second
  \<open>endTime\<close> is the rounded sum \<open>startTime + chunkLength\<close>, which is less than the
  duration, so the union of the intervals is not \<open>[0, totalDuration]\<close>.
\<close>

theorem C2_coverage_counterexample:
  "round64 (151 / 10) = 8500544296661811 / 562949953421312 \<and>
   round64 (69 / 5) = 3884354678607053 / 281474976710656 \<and>
   round64 (29 / 5) = 6530219459687219 / 1125899906842624 \<and>
   getAudioDuration (demoAudio (8500544296661811 / 562949953421312)) ''a.wav'' =
     Inr (8500544296661811 / 562949953421312) \<and>
   (0::rat) < 8500544296661811 / 562949953421312 \<and>
   (0::rat) \<le> 6530219459687219 / 1125899906842624 \<and>
   (6530219459687219 / 1125899906842624 :: rat) < 3884354678607053 / 281474976710656 \<and>
   splitAudioIntoChunks64 (demoAudio (8500544296661811 / 562949953421312)) ''a.wav''
      (Some (3884354678607053 / 281474976710656)) (Some (6530219459687219 / 1125899906842624)) =
     Some (Inr [\<lparr>buffer = [], startTime = 0,
                  endTime = 3884354678607053 / 281474976710656, index = 0\<rparr>,
                \<lparr>buffer = ''x'', startTime = 2476979795053773 / 1125899906842624,
                  endTime = 4250272148330905 / 281474976710656, index = 1\<rparr>]) \<and>
   (4250272148330905 / 281474976710656 :: rat) < 8500544296661811 / 562949953421312 \<and>
   (\<Union>c\<in>set [\<lparr>buffer = [], startTime = 0,
                  endTime = 3884354678607053 / 281474976710656, index = 0\<rparr>,
                \<lparr>buffer = ''x'', startTime = 2476979795053773 / 1125899906842624,
                  endTime = 4250272148330905 / 281474976710656, index = 1\<rparr>].
        {AudioChunk.startTime c .. AudioChunk.endTime c}) \<noteq>
     {0 .. 8500544296661811 / 562949953421312}"
proof -
  let ?d = "8500544296661811 / 562949953421312 :: rat"
  let ?U = "(\<Union>c\<in>set [\<lparr>buffer = [], startTime = 0,
                  endTime = 3884354678607053 / 281474976710656, index = 0\<rparr>,
                \<lparr>buffer = ''x'', startTime = 2476979795053773 / 1125899906842624,
                  endTime = 4250272148330905 / 281474976710656, index = 1\<rparr>].
        {AudioChunk.startTime c .. AudioChunk.endTime c})"
  have "?d \<in> {0..?d}" by simp
  moreover have "?d \<notin> ?U" by simp
  ultimately have ne: "?U \<noteq> {0..?d}" by metis
  have a: "getAudioDuration (demoAudio ?d) ''a.wav'' = Inr ?d" by (simp add: demoAudio_def)
  show ?thesis
    by (intro conjI; (rule demo_round64 demo_split64 ne a | simp))
qed

text \<open>
  Claim C2, amended. Let the duration be a binary64 number with
  \<open>0 < totalDuration \<le> 2\<^sup>5\<^sup>2\<close>, and the chunk length and the overlap whole numbers with
  \<open>chunkLength > overlap \<ge> 0\<close> and \<open>chunkLength \<le> 2\<^sup>5\<^sup>2\<close>. Then no operation of the
  loop rounds: the loop returns; it returns chunks whenever every extraction succeeds;
  and the chunks it returns cover exactly \<open>[0, totalDuration]\<close>, the union of their
  intervals \<open>[startTime, endTime]\<close> being that interval, each chunk of positive length.
\<close>

theorem C2_coverage:
  assumes "getAudioDuration A p = Inr d" and "round64 d = d" and "0 < d" and "d \<le> 2 ^ 52"
    and "ov < cd" and "cd \<le> 2 ^ 52"
  shows "(\<exists>r. splitAudioIntoChunks64 A p (Some (of_nat cd)) (Some (of_nat ov)) = Some r) \<and>
         ((\<forall>s l k. \<exists>b. extractChunk A p s l k = Inr b) \<longrightarrow>
            (\<exists>chunks. splitAudioIntoChunks64 A p (Some (of_nat cd)) (Some (of_nat ov)) =
               Some (Inr chunks))) \<and>
         (\<forall>chunks. splitAudioIntoChunks64 A p (Some (of_nat cd)) (Some (of_nat ov)) =
               Some (Inr chunks) \<longrightarrow>
            (\<Union>c\<in>set chunks. {AudioChunk.startTime c .. AudioChunk.endTime c}) = {0..d} \<and>
            (\<forall>c\<in>set chunks. AudioChunk.startTime c < AudioChunk.endTime c))"
proof -
  have lt: "(of_nat ov :: rat) < of_nat cd" and nn: "(0::rat) \<le> of_nat ov"
    using assms(5) by simp_all
  show ?thesis
    unfolding split64_exact [OF assms(1,2,4,5,6)]
    by (rule split_cover [OF assms(1) assms(3) lt nn])
qed

text \<open>
  The binary64 number nearest to \<open>200.1\<close> as duration, with the default chunk length
  \<open>59\<close> and overlap \<open>1\<close>.
\<close>

theorem C2_coverage_witness:
  "round64 (2001 / 10) = 7040392854975283 / 35184372088832 \<and>
   getAudioDuration (demoAudio (7040392854975283 / 35184372088832)) ''a.wav'' =
     Inr (7040392854975283 / 35184372088832) \<and>
   round64 (7040392854975283 / 35184372088832) = 7040392854975283 / 35184372088832 \<and>
   (0::rat) < 7040392854975283 / 35184372088832 \<and>
   (7040392854975283 / 35184372088832 :: rat) \<le> 2 ^ 52 \<and>
   (1::nat) < 59 \<and> (59::nat) \<le> 2 ^ 52 \<and>
   (\<forall>s l k. \<exists>b. extractChunk (demoAudio (7040392854975283 / 35184372088832)) ''a.wav'' s l k =
      Inr b) \<and>
   (\<exists>chunks. splitAudioIntoChunks64 (demoAudio (7040392854975283 / 35184372088832)) ''a.wav''
        (Some (of_nat 59)) (Some (of_nat 1)) = Some (Inr chunks) \<and>
      (\<Union>c\<in>set chunks. {AudioChunk.startTime c .. AudioChunk.endTime c}) =
        {0 .. 7040392854975283 / 35184372088832} \<and>
      (\<forall>c\<in>set chunks. AudioChunk.startTime c < AudioChunk.endTime c))"
proof -
  let ?d = "7040392854975283 / 35184372088832 :: rat"
  have a: "getAudioDuration (demoAudio ?d) ''a.wav'' = Inr ?d"
    and ok: "\<forall>s l k. \<exists>b. extractChunk (demoAudio ?d) ''a.wav'' s l k = Inr b"
    by (simp_all add: demoAudio_def)
  have pos: "0 < ?d" and le: "?d \<le> 2 ^ 52" by simp_all
  have c: "(1::nat) < 59" "(59::nat) \<le> 2 ^ 52" by simp_all
  from C2_coverage [OF a demo_round64(5) pos le c] ok
  have "\<exists>chunks. splitAudioIntoChunks64 (demoAudio ?d) ''a.wav''
        (Some (of_nat 59)) (Some (of_nat 1)) = Some (Inr chunks) \<and>
      (\<Union>c\<in>set chunks. {AudioChunk.startTime c .. AudioChunk.endTime c}) = {0 .. ?d} \<and>
      (\<forall>c\<in>set chunks. AudioChunk.startTime c < AudioChunk.endTime c)"
    by fastforce
  with a ok pos le c demo_round64(4,5) show ?thesis by (intro conjI) 
qed

lemma split_closed_form:
  assumes d: "getAudioDuration A p = Inr d" and step: "ov < cd"
    and run: "splitAudioIntoChunks A p (Some cd) (Some ov) = Some (Inr chunks)"
  shows "d \<le> of_nat (length chunks) * (cd - ov)"
    and "\<And>k. k < length chunks \<Longrightarrow>
            AudioChunk.startTime (chunks ! k) = max 0 (of_nat k * (cd - ov) - ov) \<and>
            AudioChunk.endTime (chunks ! k) =
              AudioChunk.startTime (chunks ! k) + min cd (d - AudioChunk.startTime (chunks ! k)) \<and>
            index (chunks ! k) = k \<and> of_nat k * (cd - ov) < d"
proof -
  have "0 < cd - ov" using step by simp
  from splitLoop_closed_form [OF this split_run [OF d run]]
  show "d \<le> of_nat (length chunks) * (cd - ov)"
    and "\<And>k. k < length chunks \<Longrightarrow>
            AudioChunk.startTime (chunks ! k) = max 0 (of_nat k * (cd - ov) - ov) \<and>
            AudioChunk.endTime (chunks ! k) =
              AudioChunk.startTime (chunks ! k) + min cd (d - AudioChunk.startTime (chunks ! k)) \<and>
            index (chunks ! k) = k \<and> of_nat k * (cd - ov) < d"
    by blast+
qed

lemma split_nonpositive_duration:
  assumes "getAudioDuration A p = Inr d" and "d \<le> 0"
  shows "splitAudioIntoChunks A p cdArg ovArg = Some (Inr [])"
  using assms by (simp add: splitAudioIntoChunks_def splitLoop.simps)

subsection \<open>Inputs outside the precondition\<close>

text \<open>
  Claim C5, as stated, fails: the source validates nothing. With duration \<open>100\<close>, chunk
  length \<open>59\<close> and the negative overlap \<open>-1\<close> the call returns two segments,
  \<open>[1, 60]\<close> and \<open>[61, 100]\<close>, and no error.
\<close>

theorem C5_no_validation_counterexample:
  "splitAudioIntoChunks (demoAudio 100) ''a.wav'' (Some 59) (Some (- 1)) =
     Some (Inr [\<lparr>buffer = [], startTime = 1, endTime = 60, index = 0\<rparr>,
                \<lparr>buffer = ''x'', startTime = 61, endTime = 100, index = 1\<rparr>])"
  by (simp add: splitAudioIntoChunks_def demoAudio_def splitLoop.simps)

text \<open>
  Claim C5, amended. \<^verbatim>\<open>splitAudioIntoChunks\<close> has no parameter check and no failure of
  its own. When the duration is not positive, or the chunk length exceeds the overlap
  (a negative overlap included), and the probe and every extraction succeed, it returns a
  list of chunks without error; the list is empty exactly when the duration is not
  positive.
\<close>

theorem C5_no_validation:
  assumes "getAudioDuration A p = Inr d"
    and "\<forall>s l k. \<exists>b. extractChunk A p s l k = Inr b"
    and "d \<le> 0 \<or> ov < cd"
  shows "\<exists>chunks. splitAudioIntoChunks A p (Some cd) (Some ov) = Some (Inr chunks) \<and>
                  (chunks = [] \<longleftrightarrow> d \<le> 0)"
proof (cases "d \<le> 0")
  case True
  with split_nonpositive_duration [OF assms(1) True] show ?thesis by simp
next
  case False
  with assms(3) have step: "ov < cd" by simp
  from split_total [OF step assms(1) assms(2)] obtain chunks
    where run: "splitAudioIntoChunks A p (Some cd) (Some ov) = Some (Inr chunks)" by blast
  have "d \<le> of_nat (length chunks) * (cd - ov)"
    using split_closed_form(1) [OF assms(1) step run] .
  with False have "chunks \<noteq> []" by auto
  with run False show ?thesis by simp
qed

theorem C5_no_validation_witness:
  "getAudioDuration (demoAudio 100) ''a.wav'' = Inr 100 \<and>
   (\<forall>s l k. \<exists>b. extractChunk (demoAudio 100) ''a.wav'' s l k = Inr b) \<and>
   ((100::rat) \<le> 0 \<or> (-1::rat) < 59) \<and>
   (\<exists>chunks. splitAudioIntoChunks (demoAudio 100) ''a.wav'' (Some 59) (Some (-1)) = Some (Inr chunks) \<and>
      chunks \<noteq> [])"
proof -
  have d: "getAudioDuration (demoAudio 100) ''a.wav'' = Inr 100"
    and ok: "\<forall>s l k. \<exists>b. extractChunk (demoAudio 100) ''a.wav'' s l k = Inr b"
    by (simp_all add: demoAudio_def)
  have v: "(100::rat) \<le> 0 \<or> (-1::rat) < 59" by simp
  from C5_no_validation [OF d ok v] d ok show ?thesis by simp
qed

text \<open>
  The remaining inputs outside the precondition: with a positive duration and a chunk
  length that does not exceed the overlap, \<open>currentTime\<close> never grows and the loop
  does not return.
\<close>

lemma split_diverges:
  assumes "getAudioDuration A p = Inr d" and "0 < d" and "cd \<le> ov"
    and "\<forall>s l k. \<exists>b. extractChunk A p s l k = Inr b"
  shows "splitAudioIntoChunks A p (Some cd) (Some ov) = None"
  using splitLoop_diverges [of "extractChunk A p" d cd ov] assms
  by (simp add: splitAudioIntoChunks_def)

subsection \<open>Audio no longer than one chunk\<close>


text \<open>
  The short-audio path is in \<^verbatim>\<open>transcribeFile\<close>: when the duration does not exceed
  \<^verbatim>\<open>options.chunkDuration || 59\<close> the segmenter is not called and the whole file goes to
  the provider.
\<close>

lemma transcribeFile_short_audio:
  assumes "validateAudioFile (audioProcessor E) inputPath = None"
    and "extractAudio (audioProcessor E) inputPath = Inr audioPath"
    and "getAudioDuration (audioProcessor E) audioPath = Inr duration"
    and "options = (case processingOptions of None \<Rightarrow> singleton | Some po \<Rightarrow> spread singleton po)"
    and "duration \<le> numOr (chunkDuration options) 59"
  shows "transcribeFile E singleton name inputPath transcriptionConfig processingOptions w =
           Some (finish E options
             (transcribe (remote E) name audioPath
                (transcriptionConfig\<lparr> encoding := Some (detectEncoding (audioProcessor E) audioPath),
                                       sampleRateHertz := Some 16000 \<rparr>)
                (emitIf (truthy (verbose options))
                   (LogAudioInfo audioPath (detectEncoding (audioProcessor E) audioPath) duration) w)))"
  using assms by (simp add: transcribeFile_def Let_def)



subsection \<open>Overlap of consecutive segments\<close>




section \<open>Properties of the merge\<close>

lemma foldl_mergeStep_words:
  "fst (snd (foldl mergeStep (tr, ws, tc, cc, lc) results)) =
     ws @ concat (map (\<lambda>r. case TranscriptionResult.words r of Some x \<Rightarrow> x | None \<Rightarrow> []) results)"
  by (induction results arbitrary: tr ws tc cc lc)
     (simp_all add: mergeStep_def split: option.split)

lemma foldl_mergeStep_total:
  "fst (snd (snd (foldl mergeStep (tr, ws, tc, cc, lc) results))) =
     tc + sum_list (reportedConfidences results)"
  by (induction results arbitrary: tr ws tc cc lc)
     (simp_all add: mergeStep_def reportedConfidences_def split: option.split)

lemma foldl_mergeStep_count:
  "fst (snd (snd (snd (foldl mergeStep (tr, ws, tc, cc, lc) results)))) =
     cc + length (reportedConfidences results)"
  by (induction results arbitrary: tr ws tc cc lc)
     (simp_all add: mergeStep_def reportedConfidences_def truthyNum_def split: option.split)

lemma mergeResults_words:
  "TranscriptionResult.words (mergeResults results) =
     Some (sort_key WordInfo.startTime
        (concat (map (\<lambda>r. case TranscriptionResult.words r of Some x \<Rightarrow> x | None \<Rightarrow> []) results)))"
proof -
  obtain tr ws tc cc lc where f: "foldl mergeStep ([], [], 0, 0, None) results = (tr, ws, tc, cc, lc)"
    by (metis prod_cases5)
  from foldl_mergeStep_words [of "[]" "[]" 0 0 None results] f
  show ?thesis by (simp add: mergeResults_def)
qed

text \<open>
  Claim C10, amended. The merged confidence is the arithmetic mean over exactly those
  results whose confidence is present and not \<open>0\<close>; the other results enter neither
  the sum nor the count; when there is no such result the merged confidence is \<open>0\<close>.
\<close>

theorem C10_confidence:
  "TranscriptionResult.confidence (mergeResults results) =
     Some (if reportedConfidences results = [] then 0
           else sum_list (reportedConfidences results)
                  / of_nat (length (reportedConfidences results)))"
proof -
  obtain tr ws tc cc lc where f: "foldl mergeStep ([], [], 0, 0, None) results = (tr, ws, tc, cc, lc)"
    by (metis prod_cases5)
  from foldl_mergeStep_total [of "[]" "[]" 0 0 None results] f
  have tc: "tc = sum_list (reportedConfidences results)" by simp
  from foldl_mergeStep_count [of "[]" "[]" 0 0 None results] f
  have cc: "cc = length (reportedConfidences results)" by simp
  show ?thesis using f tc cc by (simp add: mergeResults_def)
qed

text \<open>
  Claim C10, as stated, fails for a result that reports the confidence \<open>0\<close>: the test
  \<^verbatim>\<open>if (result.confidence)\<close> leaves it out of the count, so two results with the
  confidences \<open>0\<close> and \<open>4/5\<close> merge to \<open>4/5\<close>, not to their mean \<open>2/5\<close>.
\<close>

theorem C10_confidence_counterexample:
  "TranscriptionResult.confidence
     (mergeResults [emptyResult\<lparr> TranscriptionResult.confidence := Some 0 \<rparr>,
                    emptyResult\<lparr> TranscriptionResult.confidence := Some (4/5) \<rparr>]) = Some (4/5)
   \<and> ((0::rat) + 4/5) / 2 \<noteq> 4/5"
  by (simp add: mergeResults_def mergeStep_def emptyResult_def truthyNum_def falsyStr_def)

section \<open>Properties of the providers\<close>

lemma g_processResponse_words:
  "\<exists>ps. TranscriptionResult.words (g_processResponse response) = Some ps"
  by (simp add: g_processResponse_def emptyResult_def Let_def split: list.split)

lemma v_processResponse_words:
  "\<exists>ps. TranscriptionResult.words (v_processResponse response) = Some ps"
  by (simp add: v_processResponse_def emptyResult_def Let_def split: list.split)

lemma parsedResponse_words:
  assumes "parsedResponse R name chunk config s = Some parsed"
  shows "\<exists>ps. TranscriptionResult.words parsed = Some ps"
  using assms g_processResponse_words v_processResponse_words
  by (auto simp: parsedResponse_def split: ProviderName.splits prod.splits sum.splits)

lemma transcribeChunk_Inr:
  assumes "transcribeChunk R name chunk config w = (Inr result, w')"
  shows "\<exists>parsed. parsedResponse R name chunk config (service w) = Some parsed \<and>
                   result = adjustTimestamps chunk parsed"
  using assms
  by (auto simp: transcribeChunk_def parsedResponse_def g_transcribeChunk_def
        v_transcribeChunk_def
      split: ProviderName.splits prod.splits sum.splits option.splits)

lemma adjustTimestamps_words:
  assumes "TranscriptionResult.words parsed = Some ps"
  shows "TranscriptionResult.words (adjustTimestamps chunk parsed) =
           Some (map (\<lambda>p. p\<lparr> WordInfo.startTime := WordInfo.startTime p + AudioChunk.startTime chunk,
                               WordInfo.endTime := WordInfo.endTime p + AudioChunk.startTime chunk \<rparr>) ps)"
  using assms by (simp add: adjustTimestamps_def adjustWord_def)

text \<open>
  Claim C3, amended. \<^verbatim>\<open>transcribeChunk\<close> itself applies the offset correction: in the
  result it returns, the words are those parsed from the response of the remote service,
  each with \<open>startTime\<close> and \<open>endTime\<close> increased by the \<open>startTime\<close> of the chunk
  and otherwise unchanged.
\<close>

theorem C3_offset_applied:
  assumes "transcribeChunk R name chunk config w = (Inr result, w')"
  shows "\<exists>parsed ps.
           parsedResponse R name chunk config (service w) = Some parsed \<and>
           TranscriptionResult.words parsed = Some ps \<and>
           TranscriptionResult.words result =
             Some (map (\<lambda>p. p\<lparr> WordInfo.startTime := WordInfo.startTime p + AudioChunk.startTime chunk,
                                 WordInfo.endTime := WordInfo.endTime p + AudioChunk.startTime chunk \<rparr>) ps)"
proof -
  from transcribeChunk_Inr [OF assms] obtain parsed
    where p: "parsedResponse R name chunk config (service w) = Some parsed"
      and r: "result = adjustTimestamps chunk parsed" by blast
  from parsedResponse_words [OF p] obtain ps
    where ps: "TranscriptionResult.words parsed = Some ps" by blast
  from adjustTimestamps_words [OF ps] p ps r show ?thesis by blast
qed

text \<open>
  Claim C3, as stated, fails: for a chunk that starts at \<open>10\<close> seconds and a response
  with a word from \<open>2\<close> to \<open>5/2\<close> seconds, the word in the result of
  \<^verbatim>\<open>transcribeChunk\<close> runs from \<open>12\<close> to \<open>25/2\<close>.
\<close>

theorem C3_offset_applied_counterexample:
  "parsedResponse (demoRemote 0) google_speech demoChunk demoConfig (service demoWorld) =
     Some \<lparr> TranscriptionResult.transcript = ''hello'',
            TranscriptionResult.words =
              Some [\<lparr> WordInfo.word = ''hello'', WordInfo.startTime = 2, WordInfo.endTime = 5 / 2,
                      WordInfo.confidence = None, WordInfo.speakerTag = None \<rparr>],
            TranscriptionResult.alternatives = Some [],
            TranscriptionResult.languageCode = Some ''en-US'',
            TranscriptionResult.confidence = Some (9 / 10) \<rparr> \<and>
   fst (transcribeChunk (demoRemote 0) google_speech demoChunk demoConfig demoWorld) =
     Inr \<lparr> TranscriptionResult.transcript = ''hello'',
           TranscriptionResult.words =
             Some [\<lparr> WordInfo.word = ''hello'', WordInfo.startTime = 12, WordInfo.endTime = 25 / 2,
                     WordInfo.confidence = None, WordInfo.speakerTag = None \<rparr>],
           TranscriptionResult.alternatives = Some [],
           TranscriptionResult.languageCode = Some ''en-US'',
           TranscriptionResult.confidence = Some (9 / 10) \<rparr>"
  by (simp add: parsedResponse_def transcribeChunk_def g_transcribeChunk_def g_validateConfig_def
        demoRemote_def demoConfig_def demoChunk_def demoWorld_def demoResponse_def falsyStr_def
        g_processResponse_def adjustTimestamps_def adjustWord_def g_wordInfo_def
        g_primaryTranscript_def trim_def isSpace_def)

theorem C3_offset_applied_witness:
  "transcribeChunk (demoRemote 0) google_speech demoChunk demoConfig demoWorld =
     (Inr \<lparr> TranscriptionResult.transcript = ''hello'',
            TranscriptionResult.words =
              Some [\<lparr> WordInfo.word = ''hello'', WordInfo.startTime = 12, WordInfo.endTime = 25 / 2,
                      WordInfo.confidence = None, WordInfo.speakerTag = None \<rparr>],
            TranscriptionResult.alternatives = Some [],
            TranscriptionResult.languageCode = Some ''en-US'',
            TranscriptionResult.confidence = Some (9 / 10) \<rparr>,
      \<lparr> service = 1, trace = [] \<rparr>) \<and>
   (\<exists>parsed ps.
      parsedResponse (demoRemote 0) google_speech demoChunk demoConfig (service demoWorld) = Some parsed \<and>
      TranscriptionResult.words parsed = Some ps \<and>
      Some [\<lparr> WordInfo.word = ''hello'', WordInfo.startTime = 12, WordInfo.endTime = 25 / 2,
              WordInfo.confidence = None, WordInfo.speakerTag = None \<rparr>] =
        Some (map (\<lambda>p. p\<lparr> WordInfo.startTime := WordInfo.startTime p + AudioChunk.startTime demoChunk,
                            WordInfo.endTime := WordInfo.endTime p + AudioChunk.startTime demoChunk \<rparr>) ps))"
  using C3_offset_applied [OF demo_transcribeChunk] demo_transcribeChunk by simp

section \<open>Properties of the dispatch and of the retry pass\<close>

subsection \<open>The failed indices of the sweep\<close>

text \<open>
  At the end of the dispatch loop the failed indices are distinct and their slots are
  absent: the retry pass is called on such a table.
\<close>

lemma runBatch_shape:
  assumes "runBatch R name verb config pairs failed w = (brs, failed', w')"
  shows "map fst brs = map fst pairs \<and>
         failed' = failed @ map fst (filter (\<lambda>b. snd b = None) brs)"
  using assms
proof (induction pairs arbitrary: failed w brs failed' w')
  case Nil
  then show ?case by simp
next
  case (Cons pr pairs)
  obtain i c where pr: "pr = (i, c)" by (cases pr)
  obtain res w1 where call: "transcribeChunk R name c config w = (res, w1)"
    by (cases "transcribeChunk R name c config w")
  show ?case
  proof (cases res)
    case (Inr result)
    obtain brs1 f1 w2 where rb: "runBatch R name verb config pairs failed
        (emitIf verb (LogChunkCompleted i) w1) = (brs1, f1, w2)"
      by (metis prod_cases3)
    from Cons.prems pr call Inr rb have "brs = (i, Some result) # brs1" "failed' = f1" by simp_all
    with Cons.IH [OF rb] pr show ?thesis by simp
  next
    case (Inl e)
    obtain brs1 f1 w2 where rb: "runBatch R name verb config pairs (failed @ [i])
        (emit (LogChunkFailed i e) w1) = (brs1, f1, w2)"
      by (metis prod_cases3)
    from Cons.prems pr call Inl rb have "brs = (i, None) # brs1" "failed' = f1" by simp_all
    with Cons.IH [OF rb] pr show ?thesis by simp
  qed
qed

lemma storeResults_length [simp]: "length (storeResults results brs) = length results"
  unfolding storeResults_def by (induction brs arbitrary: results) (auto split: prod.splits)

lemma storeResults_other:
  assumes "j \<notin> fst ` set brs"
  shows "storeResults results brs ! j = results ! j"
  using assms unfolding storeResults_def
  by (induction brs arbitrary: results) (auto split: prod.splits)

lemma storeResults_stored:
  assumes "distinct (map fst brs)" and "(j, ro) \<in> set brs" and "j < length results"
  shows "storeResults results brs ! j = ro"
  using assms
proof (induction brs arbitrary: results)
  case Nil
  then show ?case by simp
next
  case (Cons b brs)
  obtain i x where b: "b = (i, x)" by (cases b)
  have unf: "storeResults results (b # brs) = storeResults (results[i := x]) brs"
    by (simp add: storeResults_def b)
  show ?case
  proof (cases "(j, ro) \<in> set brs")
    case True
    from Cons.IH [OF _ True, of "results[i := x]"] Cons.prems unf show ?thesis by simp
  next
    case False
    with Cons.prems(2) b have eq: "i = j" "x = ro" by auto
    from Cons.prems(1) b eq have "j \<notin> fst ` set brs" by simp
    from storeResults_other [OF this, of "results[i := x]"] unf eq Cons.prems(3)
    show ?thesis by simp
  qed
qed

lemma dispatchLoop_failed_inv:
  assumes "dispatchLoop R name options config chunks i results failed w = (results', failed', w')"
    and "length results = length chunks" and "distinct failed"
    and "\<forall>j\<in>set failed. j < i \<and> j < length chunks \<and> results ! j = None"
  shows "length results' = length chunks \<and> distinct failed' \<and>
         (\<forall>j\<in>set failed'. j < length chunks \<and> results' ! j = None)"
  using assms
proof (induction R name options config chunks i results failed w rule: dispatchLoop.induct)
  case (1 R name options config chunks i results failedChunks w)
  show ?case
  proof (cases "i < length chunks")
    case False
    with "1.prems"(1) have "results' = results" "failed' = failedChunks"
      by (subst (asm) dispatchLoop.simps, simp)+
    with "1.prems"(2,3,4) show ?thesis by simp
  next
    case True
    let ?m = "numOr (maxConcurrentChunks options) 3"
    let ?batch = "take (min (i + ?m) (length chunks) - i) (drop i chunks)"
    let ?idx = "map (\<lambda>idx. i + idx) [0..<length ?batch]"
    obtain brs f1 w1 where rb: "runBatch R name (truthy (verbose options)) config
        (zip ?idx ?batch) failedChunks w = (brs, f1, w1)"
      by (metis prod_cases3)
    from runBatch_shape [OF rb]
    have keys: "map fst brs = ?idx"
      and f1: "f1 = failedChunks @ map fst (filter (\<lambda>b. snd b = None) brs)" by simp_all
    have lb: "i + length ?batch \<le> length chunks" using True by simp
    have lbm: "length ?batch \<le> ?m" by simp
    have dk: "distinct (map fst brs)" unfolding keys by (simp add: distinct_map inj_on_def)
    have rng: "\<forall>j\<in>fst ` set brs. i \<le> j \<and> j < i + length ?batch"
    proof -
      have "fst ` set brs = set (map fst brs)" by simp
      also have "\<dots> = set ?idx" using keys by simp
      finally show ?thesis by auto
    qed
    let ?fs = "map fst (filter (\<lambda>b. snd b = None) brs)"
    have dfs: "distinct ?fs" using dk by (simp add: distinct_map_filter)
    have fsr: "set ?fs \<subseteq> fst ` set brs" by auto
    have disj: "set failedChunks \<inter> set ?fs = {}"
    proof (rule ccontr)
      assume "set failedChunks \<inter> set ?fs \<noteq> {}"
      then obtain x where a: "x \<in> set failedChunks" and b: "x \<in> set ?fs" by blast
      from a "1.prems"(4) have "x < i" by blast
      moreover from b fsr have "x \<in> fst ` set brs" by blast
      with rng have "i \<le> x" by blast
      ultimately show False by simp
    qed
    have d1: "distinct f1"
      unfolding f1 using "1.prems"(3) dfs disj by (simp only: distinct_append)
    have l1: "length (storeResults results brs) = length chunks" using "1.prems"(2) by simp
    have n1: "\<forall>j\<in>set f1. j < i + ?m \<and> j < length chunks \<and> storeResults results brs ! j = None"
    proof
      fix j assume "j \<in> set f1"
      then consider "j \<in> set failedChunks" | "j \<in> set ?fs" unfolding f1 by auto
      then show "j < i + ?m \<and> j < length chunks \<and> storeResults results brs ! j = None"
      proof cases
        case 1
        with "1.prems"(4) have a: "j < i" "j < length chunks" "results ! j = None" by auto
        from a(1) rng have "j \<notin> fst ` set brs" by auto
        from storeResults_other [OF this] a show ?thesis by simp
      next
        case 2
        then have m: "(j, None) \<in> set brs" by auto
        then have "j \<in> fst ` set brs" by force
        with rng lb lbm have b: "j < length chunks" "j < i + ?m" by auto
        from storeResults_stored [OF dk m] b "1.prems"(2) show ?thesis by simp
      qed
    qed
    from "1.prems"(1) True rb
    have "dispatchLoop R name options config chunks (i + ?m) (storeResults results brs) f1
            (emitIf (i + ?m < length chunks) (Delay 100) w1) = (results', failed', w')"
      by (subst (asm) dispatchLoop.simps) (simp add: Let_def)
    from "1.IH" [OF True refl refl refl rb [symmetric] refl this l1 d1 n1]
    show ?thesis .
  qed
qed

lemma dispatchLoop_failed:
  assumes "dispatchLoop R name options config chunks 0 (replicate (length chunks) None) [] w =
             (results, failedChunks, w')"
  shows "distinct failedChunks \<and>
         (\<forall>i\<in>set failedChunks. i < length results \<and> results ! i = None)"
  using dispatchLoop_failed_inv [OF assms] by simp

subsection \<open>The calls of the sweep\<close>

text \<open>
  The provider acts on the service component of the world only. The sweep leaves in the
  slot of each chunk the outcome of the call made for it in the state that the calls for
  the chunks before it have left.
\<close>

lemma transcribeChunk_service:
  "transcribeChunk R name chunk config w =
     (case transcribeChunk R name chunk config \<lparr> service = service w, trace = [] \<rparr> of
        (res, w1) \<Rightarrow> (res, w\<lparr> service := service w1 \<rparr>))"
  by (simp add: transcribeChunk_def split: ProviderName.split prod.split)

lemma transcribeChunkAt_call:
  "transcribeChunkAt R name chunks idx config w =
     (case providerCall R name chunks config idx (service w) of
        (res, s') \<Rightarrow> (res, w\<lparr> service := s' \<rparr>))"
  unfolding providerCall_def transcribeChunkAt_def
  by (subst transcribeChunk_service) (simp split: prod.split option.split)

lemma sweepState_Suc: "sweepState call (Suc j) s = snd (call j (sweepState call j s))"
  by (simp add: sweepState_def)

lemma transcribeChunk_call:
  assumes "i < length chunks"
  shows "transcribeChunk R name (chunks ! i) config w =
           (case providerCall R name chunks config i (service w) of
              (res, s') \<Rightarrow> (res, w\<lparr> service := s' \<rparr>))"
  using transcribeChunkAt_call [of R name chunks i config w] assms
  by (simp add: transcribeChunkAt_def)

lemma runBatch_sweep:
  assumes "runBatch R name verb config (map (\<lambda>j. (j, chunks ! j)) [a..<b]) failed w =
             (brs, failed', w')"
    and "b \<le> length chunks" and "a \<le> b"
    and "service w = sweepState (providerCall R name chunks config) a s0"
  shows "service w' = sweepState (providerCall R name chunks config) b s0 \<and>
         brs = map (\<lambda>j. (j, sweepSlot (providerCall R name chunks config) j s0)) [a..<b]"
  using assms
proof (induction "b - a" arbitrary: a failed w brs failed' w')
  case 0
  then show ?case by simp
next
  case (Suc n)
  let ?call = "providerCall R name chunks config"
  from Suc.hyps(2) have lt: "a < b" by simp
  then have upt: "[a..<b] = a # [Suc a..<b]" by (simp add: upt_rec)
  from lt Suc.prems(2) have al: "a < length chunks" by simp
  obtain res s1 where pc: "?call a (service w) = (res, s1)" by (cases "?call a (service w)")
  have call: "transcribeChunk R name (chunks ! a) config w = (res, w\<lparr> service := s1 \<rparr>)"
    by (simp add: transcribeChunk_call [OF al] pc)
  have s1: "s1 = sweepState ?call (Suc a) s0"
    using pc Suc.prems(4) by (simp add: sweepState_Suc)
  have n: "n = b - Suc a" using Suc.hyps(2) by simp
  have le: "Suc a \<le> b" using lt by simp
  show ?case
  proof (cases res)
    case (Inr result)
    let ?w2 = "emitIf verb (LogChunkCompleted a) (w\<lparr> service := s1 \<rparr>)"
    obtain brs1 f1 w2 where rb: "runBatch R name verb config
        (map (\<lambda>j. (j, chunks ! j)) [Suc a..<b]) failed ?w2 = (brs1, f1, w2)"
      by (metis prod_cases3)
    from Suc.prems(1) call Inr rb have brs: "brs = (a, Some result) # brs1" and w': "w' = w2"
      unfolding upt by simp_all
    have sv: "service ?w2 = sweepState ?call (Suc a) s0"
      using s1 by (simp add: emitIf_def emit_def)
    from Suc.hyps(1) [OF n rb Suc.prems(2) le sv]
    have "service w2 = sweepState ?call b s0"
      and "brs1 = map (\<lambda>j. (j, sweepSlot ?call j s0)) [Suc a..<b]" by simp_all
    moreover have "sweepSlot ?call a s0 = Some result"
      using pc Inr Suc.prems(4) by (simp add: sweepSlot_def)
    ultimately show ?thesis using brs w' upt by simp
  next
    case (Inl e)
    let ?w2 = "emit (LogChunkFailed a e) (w\<lparr> service := s1 \<rparr>)"
    obtain brs1 f1 w2 where rb: "runBatch R name verb config
        (map (\<lambda>j. (j, chunks ! j)) [Suc a..<b]) (failed @ [a]) ?w2 = (brs1, f1, w2)"
      by (metis prod_cases3)
    from Suc.prems(1) call Inl rb have brs: "brs = (a, None) # brs1" and w': "w' = w2"
      unfolding upt by simp_all
    have sv: "service ?w2 = sweepState ?call (Suc a) s0"
      using s1 by (simp add: emit_def)
    from Suc.hyps(1) [OF n rb Suc.prems(2) le sv]
    have "service w2 = sweepState ?call b s0"
      and "brs1 = map (\<lambda>j. (j, sweepSlot ?call j s0)) [Suc a..<b]" by simp_all
    moreover have "sweepSlot ?call a s0 = None"
      using pc Inl Suc.prems(4) by (simp add: sweepSlot_def)
    ultimately show ?thesis using brs w' upt by simp
  qed
qed

lemma batch_zip:
  assumes "i < length chunks"
  shows "zip (map (\<lambda>idx. i + idx)
                [0..<length (take (min (i + m) (length chunks) - i) (drop i chunks))])
             (take (min (i + m) (length chunks) - i) (drop i chunks)) =
         map (\<lambda>j. (j, chunks ! j)) [i..<min (i + m) (length chunks)]"
  using assms by (auto simp: list_eq_iff_nth_eq min_def)

lemma dispatchLoop_sweep_inv:
  assumes "dispatchLoop R name options config chunks i results failed w = (results', failed', w')"
    and "length results = length chunks"
    and "service w = sweepState (providerCall R name chunks config) (min i (length chunks)) s0"
    and "\<forall>j<min i (length chunks).
           results ! j = sweepSlot (providerCall R name chunks config) j s0"
  shows "service w' = sweepState (providerCall R name chunks config) (length chunks) s0 \<and>
         (\<forall>j<length chunks. results' ! j = sweepSlot (providerCall R name chunks config) j s0)"
  using assms
proof (induction R name options config chunks i results failed w rule: dispatchLoop.induct)
  case (1 R name options config chunks i results failedChunks w)
  let ?call = "providerCall R name chunks config"
  show ?case
  proof (cases "i < length chunks")
    case False
    with "1.prems"(1) have "results' = results" "w' = w"
      by (subst (asm) dispatchLoop.simps, simp)+
    with "1.prems"(3,4) False show ?thesis by (simp add: min_def)
  next
    case True
    let ?m = "numOr (maxConcurrentChunks options) 3"
    let ?b = "min (i + ?m) (length chunks)"
    let ?batch = "take (?b - i) (drop i chunks)"
    let ?idx = "map (\<lambda>idx. i + idx) [0..<length ?batch]"
    have mpos: "0 < ?m" by (simp add: numOr_def split: option.split)
    obtain brs f1 w1 where rb: "runBatch R name (truthy (verbose options)) config
        (zip ?idx ?batch) failedChunks w = (brs, f1, w1)"
      by (metis prod_cases3)
    from rb have rb': "runBatch R name (truthy (verbose options)) config
        (map (\<lambda>j. (j, chunks ! j)) [i..<?b]) failedChunks w = (brs, f1, w1)"
      by (simp only: batch_zip [OF True])
    have ib: "i \<le> ?b" using True by simp
    have bl: "?b \<le> length chunks" by simp
    have sw: "service w = sweepState ?call i s0" using "1.prems"(3) True by (simp add: min_def)
    from runBatch_sweep [OF rb' bl ib sw]
    have s1: "service w1 = sweepState ?call ?b s0"
      and brs: "brs = map (\<lambda>j. (j, sweepSlot ?call j s0)) [i..<?b]" by simp_all
    have keys: "map fst brs = [i..<?b]" unfolding brs by (simp add: comp_def)
    have dk: "distinct (map fst brs)" unfolding keys by simp
    have l1: "length (storeResults results brs) = length chunks" using "1.prems"(2) by simp
    have mb: "min (i + ?m) (length chunks) = ?b" by simp
    have slots: "\<forall>j<min (i + ?m) (length chunks).
        storeResults results brs ! j = sweepSlot ?call j s0"
    proof (intro allI impI)
      fix j assume j: "j < min (i + ?m) (length chunks)"
      show "storeResults results brs ! j = sweepSlot ?call j s0"
      proof (cases "j < i")
        case True
        then have "j \<notin> fst ` set brs" unfolding brs by auto
        from storeResults_other [OF this] "1.prems"(4) True \<open>i < length chunks\<close>
        show ?thesis by (simp add: min_def)
      next
        case False
        with j have "(j, sweepSlot ?call j s0) \<in> set brs" unfolding brs by auto
        from storeResults_stored [OF dk this] j "1.prems"(2) show ?thesis by simp
      qed
    qed
    let ?w2 = "emitIf (i + ?m < length chunks) (Delay 100) w1"
    have s2: "service ?w2 = sweepState ?call (min (i + ?m) (length chunks)) s0"
      using s1 by (simp add: emitIf_def emit_def)
    from "1.prems"(1) True rb
    have "dispatchLoop R name options config chunks (i + ?m) (storeResults results brs) f1 ?w2 =
            (results', failed', w')"
      by (subst (asm) dispatchLoop.simps) (simp add: Let_def)
    from "1.IH" [OF True refl refl refl rb [symmetric] refl this l1 s2 slots]
    show ?thesis .
  qed
qed

lemma dispatchLoop_sweep:
  assumes "dispatchLoop R name options config chunks 0 (replicate (length chunks) None) [] w =
             (results, failedChunks, w')"
  shows "service w' = sweepState (providerCall R name chunks config) (length chunks) (service w)"
    and "\<And>j. j < length chunks \<Longrightarrow>
           results ! j = sweepSlot (providerCall R name chunks config) j (service w)"
proof -
  have "service w = sweepState (providerCall R name chunks config) (min 0 (length chunks)) (service w)"
    by (simp add: sweepState_def)
  from dispatchLoop_sweep_inv [OF assms _ this]
  show "service w' = sweepState (providerCall R name chunks config) (length chunks) (service w)"
    and "\<And>j. j < length chunks \<Longrightarrow>
           results ! j = sweepSlot (providerCall R name chunks config) j (service w)"
    by simp_all
qed

subsection \<open>The retry loop\<close>

lemma transcribeChunk_trace:
  "transcribeChunk R name chunk config w = (res, w') \<Longrightarrow> trace w' = trace w"
  by (auto simp: transcribeChunk_def split: prod.splits)

lemma transcribeChunkAt_trace:
  "transcribeChunkAt R name chunks idx config w = (res, w') \<Longrightarrow> trace w' = trace w"
  by (auto simp: transcribeChunkAt_def transcribeChunk_trace split: if_splits option.splits)

lemma trace_emit [simp]: "trace (emit e w) = trace w @ [e]"
  by (simp add: emit_def)

lemma trace_emitIf [simp]: "trace (emitIf c e w) = trace w @ (if c then [e] else [])"
  by (simp add: emitIf_def)

text \<open>
  The two loops of \<^verbatim>\<open>retryFailedChunks\<close> make the calls of \<open>spec_attempts\<close> and of
  \<open>spec_retry\<close>, log them, and write the result of a success in the slot.
\<close>

lemma attempts_length: "spec_attempts call n s = (h, s') \<Longrightarrow> length h \<le> n"
  by (induction n arbitrary: s h s')
     (auto split: prod.splits sum.splits)

lemma attempts_nonempty: "spec_attempts call n s = (h, s') \<Longrightarrow> 0 < n \<Longrightarrow> h \<noteq> []"
  by (cases n) (auto split: prod.splits sum.splits)

lemma attempts_failures:
  "spec_attempts call n s = (h, s') \<Longrightarrow> Suc k < length h \<Longrightarrow> \<exists>e. snd (h ! k) = Inl e"
proof (induction n arbitrary: s h s' k)
  case 0
  then show ?case by simp
next
  case (Suc n)
  obtain res s1 where c: "call s = (res, s1)" by (cases "call s")
  show ?case
  proof (cases res)
    case (Inr r)
    with Suc.prems c show ?thesis by auto
  next
    case (Inl e)
    obtain h1 s2 where a: "spec_attempts call n s1 = (h1, s2)" by (cases "spec_attempts call n s1")
    with Suc.prems c Inl have h: "h = (s, Inl e) # h1" by simp
    show ?thesis
    proof (cases k)
      case 0
      with h show ?thesis by simp
    next
      case (Suc k')
      with Suc.prems(2) h have "Suc k' < length h1" by simp
      from Suc.IH [OF a this] h Suc show ?thesis by simp
    qed
  qed
qed

lemma attempts_exhausted:
  "spec_attempts call n s = (h, s') \<Longrightarrow> h \<noteq> [] \<Longrightarrow> snd (last h) = Inl e \<Longrightarrow> length h = n"
proof (induction n arbitrary: s h s')
  case 0
  then show ?case by simp
next
  case (Suc n)
  obtain res s1 where c: "call s = (res, s1)" by (cases "call s")
  show ?case
  proof (cases res)
    case (Inr r)
    with Suc.prems c show ?thesis by auto
  next
    case (Inl e')
    obtain h1 s2 where a: "spec_attempts call n s1 = (h1, s2)" by (cases "spec_attempts call n s1")
    with Suc.prems c Inl have h: "h = (s, Inl e') # h1" by simp
    show ?thesis
    proof (cases "h1 = []")
      case True
      with a have "n = 0" by (cases n) (auto split: prod.splits sum.splits)
      with h True show ?thesis by simp
    next
      case False
      with Suc.prems(3) h have "snd (last h1) = Inl e" by simp
      from Suc.IH [OF a False this] h show ?thesis by simp
    qed
  qed
qed

lemma attempts_calls:
  "spec_attempts call n s = (h, s') \<Longrightarrow> k < length h \<Longrightarrow>
     snd (h ! k) = fst (call (fst (h ! k))) \<and>
     fst (h ! k) = (if k = 0 then s else snd (call (fst (h ! (k - 1)))))"
proof (induction n arbitrary: s h s' k)
  case 0
  then show ?case by simp
next
  case (Suc n)
  obtain res s1 where c: "call s = (res, s1)" by (cases "call s")
  show ?case
  proof (cases res)
    case (Inr r)
    with Suc.prems c show ?thesis by auto
  next
    case (Inl e)
    obtain h1 s2 where a: "spec_attempts call n s1 = (h1, s2)" by (cases "spec_attempts call n s1")
    with Suc.prems c Inl have h: "h = (s, Inl e) # h1" by simp
    show ?thesis
    proof (cases k)
      case 0
      with h c Inl show ?thesis by simp
    next
      case (Suc k')
      with Suc.prems(2) h have lt: "k' < length h1" by simp
      from Suc.IH [OF a lt] h Suc c show ?thesis by (cases k') auto
    qed
  qed
qed

lemma retryChunk_attempts:
  assumes "retryChunk R name chunks config m idx rc results w = (results', w')"
    and "spec_attempts (providerCall R name chunks config idx) (m - rc) (service w) = (h, s')"
  shows "service w' = s' \<and>
         trace w' = trace w @ retryEvents idx m rc (map snd h) \<and>
         results' = (if h = [] then results
                     else case snd (last h) of Inr r \<Rightarrow> results[idx := Some r]
                                              | Inl e \<Rightarrow> results)"
  using assms
proof (induction R name chunks config m idx rc results w arbitrary: h s'
         rule: retryChunk.induct)
  case (1 R name chunks config m idx rc results w)
  show ?case
  proof (cases "rc < m")
    case False
    with "1.prems"(1) have "results' = results" "w' = w"
      by (subst (asm) retryChunk.simps, simp)+
    moreover from False "1.prems"(2) have "h = []" "s' = service w" by simp_all
    ultimately show ?thesis by simp
  next
    case True
    let ?a = "LogRetryAttempt idx (rc + 1) m"
    let ?d = "Delay (2 ^ rc * 1000)"
    let ?w2 = "emit ?d (emit ?a w)"
    have sv: "service ?w2 = service w" by (simp add: emit_def)
    obtain res s1 where pc: "providerCall R name chunks config idx (service w) = (res, s1)"
      by (cases "providerCall R name chunks config idx (service w)")
    have call: "transcribeChunkAt R name chunks idx config ?w2 = (res, ?w2\<lparr> service := s1 \<rparr>)"
      by (subst transcribeChunkAt_call) (simp add: emit_def pc)
    let ?w3 = "?w2\<lparr> service := s1 \<rparr>"
    have tr3: "trace ?w3 = trace w @ [?a, ?d]" by (simp add: emit_def)
    from True have m: "m - rc = Suc (m - (rc + 1))" by simp
    show ?thesis
    proof (cases res)
      case (Inr r)
      from "1.prems"(1) True call Inr
      have r': "results' = results[idx := Some r]"
        and w': "w' = emit (LogRetrySucceeded idx (rc + 1)) ?w3"
        by (subst (asm) retryChunk.simps, simp)+
      from "1.prems"(2) pc Inr have h: "h = [(service w, Inr r)]" "s' = s1"
        unfolding m by simp_all
      from r' w' h tr3 show ?thesis by (simp add: emit_def)
    next
      case (Inl e)
      let ?w4 = "emitIf (rc + 1 \<ge> m) (LogRetryExhausted idx m e) ?w3"
      from "1.prems"(1) True call Inl
      have rec: "retryChunk R name chunks config m idx (rc + 1) results ?w4 = (results', w')"
        by (subst (asm) retryChunk.simps) simp
      have sv4: "service ?w4 = s1" by (simp add: emitIf_def emit_def)
      obtain h1 s2 where a: "spec_attempts (providerCall R name chunks config idx) (m - (rc + 1)) s1 = (h1, s2)"
        by (cases "spec_attempts (providerCall R name chunks config idx) (m - (rc + 1)) s1")
      from "1.prems"(2) pc Inl a have h: "h = (service w, Inl e) # h1" "s' = s2"
        unfolding m by simp_all
      from a sv4 have a': "spec_attempts (providerCall R name chunks config idx) (m - (rc + 1)) (service ?w4) = (h1, s2)"
        by simp
      from "1.IH" [OF True call [symmetric] Inl rec a']
      have s: "service w' = s2"
        and t: "trace w' = trace ?w4 @ retryEvents idx m (rc + 1) (map snd h1)"
        and r: "results' = (if h1 = [] then results
                     else case snd (last h1) of Inr r \<Rightarrow> results[idx := Some r]
                                               | Inl e \<Rightarrow> results)"
        by simp_all
      have t4: "trace ?w4 = trace w @ [?a, ?d] @ (if m \<le> rc + 1 then [LogRetryExhausted idx m e] else [])"
        by (simp add: emit_def emitIf_def)
      from s t r h t4 show ?thesis by simp
    qed
  qed
qed

lemma retryChunk_slots:
  assumes "retryChunk R name chunks config m idx 0 results w = (results', w')"
    and "spec_attempts (providerCall R name chunks config idx) m (service w) = (h, s')"
  shows "length results' = length results"
    and "j \<noteq> idx \<Longrightarrow> results' ! j = results ! j"
    and "idx < length results \<Longrightarrow> results' ! idx = slotAfter (results ! idx) h"
proof -
  from retryChunk_attempts [OF assms(1)] assms(2)
  have r: "results' = (if h = [] then results
                     else case snd (last h) of Inr r \<Rightarrow> results[idx := Some r]
                                              | Inl e \<Rightarrow> results)" by simp
  show "length results' = length results" using r by (simp split: sum.split)
  show "j \<noteq> idx \<Longrightarrow> results' ! j = results ! j" using r by (simp split: sum.split)
  show "idx < length results \<Longrightarrow> results' ! idx = slotAfter (results ! idx) h"
    using r by (simp add: slotAfter_def split: sum.split)
qed

lemma retryAll_histories:
  assumes "foldl (\<lambda>(rs, w') chunkIndex. retryChunk R name chunks config m chunkIndex 0 rs w')
             (results, w) idxs = (results', w')"
    and "spec_retry (providerCall R name chunks config) m idxs (service w) = (hs, sF)"
    and "distinct idxs" and "\<forall>i\<in>set idxs. i < length results"
  shows "map fst hs = idxs \<and> service w' = sF \<and>
         trace w' = trace w @ concat (map (\<lambda>(idx, h). retryEvents idx m 0 (map snd h)) hs) \<and>
         length results' = length results \<and>
         (\<forall>j. j \<notin> set idxs \<longrightarrow> results' ! j = results ! j) \<and>
         (\<forall>(idx, h)\<in>set hs. results' ! idx = slotAfter (results ! idx) h)"
  using assms
proof (induction idxs arbitrary: results w hs sF)
  case Nil
  then show ?case by simp
next
  case (Cons i0 rest)
  obtain r1 w1 where one: "retryChunk R name chunks config m i0 0 results w = (r1, w1)"
    by (cases "retryChunk R name chunks config m i0 0 results w")
  obtain h0 s1 where a: "spec_attempts (providerCall R name chunks config i0) m (service w) = (h0, s1)"
    by (cases "spec_attempts (providerCall R name chunks config i0) m (service w)")
  obtain hs1 s2 where b: "spec_retry (providerCall R name chunks config) m rest s1 = (hs1, s2)"
    by (cases "spec_retry (providerCall R name chunks config) m rest s1")
  from Cons.prems(2) a b have hs: "hs = (i0, h0) # hs1" and sF: "sF = s2" by simp_all
  from retryChunk_attempts [OF one] a
  have s1: "service w1 = s1" and t1: "trace w1 = trace w @ retryEvents i0 m 0 (map snd h0)"
    by simp_all
  from Cons.prems(4) have i0: "i0 < length results" by simp
  note sl = retryChunk_slots [OF one a]
  from Cons.prems(1) one
  have rec: "foldl (\<lambda>(rs, w') chunkIndex. retryChunk R name chunks config m chunkIndex 0 rs w')
             (r1, w1) rest = (results', w')" by simp
  from b s1 have b': "spec_retry (providerCall R name chunks config) m rest (service w1) = (hs1, s2)"
    by simp
  from Cons.prems(3) have d: "distinct rest" and ni: "i0 \<notin> set rest" by simp_all
  from Cons.prems(4) sl(1) have lr: "\<forall>i\<in>set rest. i < length r1" by simp
  from Cons.IH [OF rec b' d lr]
  have k: "map fst hs1 = rest" and s': "service w' = s2"
    and t': "trace w' = trace w1 @ concat (map (\<lambda>(idx, h). retryEvents idx m 0 (map snd h)) hs1)"
    and l': "length results' = length r1"
    and o': "\<forall>j. j \<notin> set rest \<longrightarrow> results' ! j = r1 ! j"
    and c': "\<forall>(idx, h)\<in>set hs1. results' ! idx = slotAfter (r1 ! idx) h"
    by simp_all
  have "\<forall>(idx, h)\<in>set hs. results' ! idx = slotAfter (results ! idx) h"
  proof (clarify)
    fix idx h assume "(idx, h) \<in> set hs"
    then consider "idx = i0" "h = h0" | "(idx, h) \<in> set hs1" unfolding hs by auto
    then show "results' ! idx = slotAfter (results ! idx) h"
    proof cases
      case 1
      with o' ni sl(3) [OF i0] show ?thesis by simp
    next
      case 2
      then have "idx \<in> set (map fst hs1)" by force
      with k ni have "idx \<noteq> i0" by auto
      with sl(2) c' 2 show ?thesis by auto
    qed
  qed
  moreover have "\<forall>j. j \<notin> set (i0 # rest) \<longrightarrow> results' ! j = results ! j"
    using o' sl(2) by simp
  ultimately show ?case using hs sF k s' t' t1 l' sl(1) by simp
qed

lemma spec_retry_member:
  "spec_retry call m idxs s = (hs, sF) \<Longrightarrow> (idx, h) \<in> set hs \<Longrightarrow>
     \<exists>s0 s1. spec_attempts (call idx) m s0 = (h, s1)"
proof (induction idxs arbitrary: s hs sF)
  case Nil
  then show ?case by simp
next
  case (Cons i0 rest)
  obtain h0 s1 where a: "spec_attempts (call i0) m s = (h0, s1)"
    by (cases "spec_attempts (call i0) m s")
  obtain hs1 s2 where b: "spec_retry call m rest s1 = (hs1, s2)"
    by (cases "spec_retry call m rest s1")
  from Cons.prems(1) a b have "hs = (i0, h0) # hs1" by simp
  with Cons.prems(2) consider "idx = i0" "h = h0" | "(idx, h) \<in> set hs1" by auto
  then show ?case
  proof cases
    case 1
    with a show ?thesis by blast
  next
    case 2
    from Cons.IH [OF b 2] show ?thesis .
  qed
qed

lemma maxRetries_numOr:
  "numOr (maxRetries options) 3 =
     (case getv (maxRetries options) of None \<Rightarrow> 3 | Some n \<Rightarrow> if n = 0 then 3 else n)"
  by (simp add: numOr_def)

lemma retryFailedChunks_histories:
  assumes "retryFailedChunks R name chunks failedIndices config results options w = (results', w')"
    and "distinct failedIndices"
    and "\<forall>i\<in>set failedIndices. i < length results \<and> results ! i = None"
    and "m = (case getv (maxRetries options) of None \<Rightarrow> 3 | Some n \<Rightarrow> if n = 0 then 3 else n)"
    and "spec_retry (providerCall R name chunks config) m failedIndices (service w) = (hs, sF)"
  shows "map fst hs = failedIndices" and "service w' = sF"
    and "trace w' = trace w @ concat (map (\<lambda>(idx, h). retryEvents idx m 0 (map snd h)) hs)"
    and "length results' = length results"
    and "\<And>j. j \<notin> set failedIndices \<Longrightarrow> results' ! j = results ! j"
    and "\<And>idx h. (idx, h) \<in> set hs \<Longrightarrow>
           h \<noteq> [] \<and> length h \<le> m \<and>
           (\<forall>k<length h. snd (h ! k) = fst (providerCall R name chunks config idx (fst (h ! k)))) \<and>
           (\<forall>k. Suc k < length h \<longrightarrow> (\<exists>e. snd (h ! k) = Inl e)) \<and>
           (case snd (last h) of
              Inr r \<Rightarrow> results' ! idx = Some r
            | Inl e \<Rightarrow> length h = m \<and> results' ! idx = None)"
proof -
  have m: "m = numOr (maxRetries options) 3" using assms(4) by (simp add: maxRetries_numOr)
  have pos: "0 < m" using assms(4) by (simp split: option.split)
  from assms(1) have f: "foldl (\<lambda>(rs, w') chunkIndex. retryChunk R name chunks config m chunkIndex 0 rs w')
             (results, w) failedIndices = (results', w')"
    by (simp add: retryFailedChunks_def m)
  from assms(3) have len: "\<forall>i\<in>set failedIndices. i < length results" by simp
  note all = retryAll_histories [OF f assms(5) assms(2) len]
  from all show k: "map fst hs = failedIndices" and "service w' = sF"
    and "trace w' = trace w @ concat (map (\<lambda>(idx, h). retryEvents idx m 0 (map snd h)) hs)"
    and "length results' = length results"
    by simp_all
  from all show "\<And>j. j \<notin> set failedIndices \<Longrightarrow> results' ! j = results ! j" by simp
  fix idx h assume mem: "(idx, h) \<in> set hs"
  from spec_retry_member [OF assms(5) mem] obtain s0 s1
    where a: "spec_attempts (providerCall R name chunks config idx) m s0 = (h, s1)" by blast
  from mem have "idx \<in> set (map fst hs)" by force
  with k assms(3) have none: "results ! idx = None" by simp
  from all mem have slot: "results' ! idx = slotAfter (results ! idx) h" by auto
  have ne: "h \<noteq> []" using attempts_nonempty [OF a pos] .
  have "case snd (last h) of
              Inr r \<Rightarrow> results' ! idx = Some r
            | Inl e \<Rightarrow> length h = m \<and> results' ! idx = None"
  proof (cases "snd (last h)")
    case (Inl e)
    from attempts_exhausted [OF a ne Inl] slot none ne Inl show ?thesis
      by (simp add: slotAfter_def)
  next
    case (Inr r)
    with slot ne show ?thesis by (simp add: slotAfter_def)
  qed
  moreover have "\<forall>k<length h. snd (h ! k) = fst (providerCall R name chunks config idx (fst (h ! k)))"
    using attempts_calls [OF a] by blast
  moreover have "\<forall>k. Suc k < length h \<longrightarrow> (\<exists>e. snd (h ! k) = Inl e)"
    using attempts_failures [OF a] by blast
  ultimately show "h \<noteq> [] \<and> length h \<le> m \<and>
           (\<forall>k<length h. snd (h ! k) = fst (providerCall R name chunks config idx (fst (h ! k)))) \<and>
           (\<forall>k. Suc k < length h \<longrightarrow> (\<exists>e. snd (h ! k) = Inl e)) \<and>
           (case snd (last h) of
              Inr r \<Rightarrow> results' ! idx = Some r
            | Inl e \<Rightarrow> length h = m \<and> results' ! idx = None)"
    using ne attempts_length [OF a] by blast
qed

text \<open>
  Claim C8, as stated, fails at the bound: the number of attempts is not limited by the
  configured \<open>maxRetries\<close> when that is \<open>0\<close>. The method reads
  \<^verbatim>\<open>options.maxRetries || 3\<close>, so with \<open>maxRetries = 0\<close> and a service that rejects
  every call the retry pass makes three attempts for the failed index \<open>1\<close>.
\<close>

theorem C8_retry_pass_counterexample:
  "getv (maxRetries ((loadDefaultProcessingOptions ''tmp'')\<lparr> maxRetries := Present (Some 0) \<rparr>)) =
     Some 0 \<and>
   retryFailedChunks (demoRemote 9) google_speech demoChunks [1] demoConfig [None, None]
      ((loadDefaultProcessingOptions ''tmp'')\<lparr> maxRetries := Present (Some 0) \<rparr>) demoWorld =
     ([None, None],
      \<lparr> service = 3,
        trace = [LogRetryAttempt 1 1 3, Delay 1000, LogRetryAttempt 1 2 3, Delay 2000,
                 LogRetryAttempt 1 3 3, Delay 4000,
                 LogRetryExhausted 1 3 (ChunkTranscriptionFailed ''unavailable'')] \<rparr>)"
  by (simp add: retryFailedChunks_def retryChunk.simps transcribeChunkAt_def demo_g_call
        demoChunks_def demoWorld_def loadDefaultProcessingOptions_def numOr_def emit_def emitIf_def)

text \<open>
  Claim C8, amended. Let \<open>m\<close> be the configured \<open>maxRetries\<close> when it is a positive
  count, and \<open>3\<close> when it is absent or \<open>0\<close>. The retry pass returns a table and a
  world, never an error. For the failed indices of a sweep (distinct, their slots absent)
  it makes, index after index, exactly the provider calls of \<open>spec_retry\<close>: for each
  failed index at most \<open>m\<close> calls of \<^verbatim>\<open>transcribeChunk\<close> for that chunk, one after the
  other on the state of the remote service, each but the last a failure. When the last
  call succeeds its result is in the slot of the index, and when it fails there were
  \<open>m\<close> calls and the slot is absent. The service is left in the state after the last of
  these calls, the trace is extended by the log lines and delays of exactly these
  attempts, and the slots of the other indices are unchanged.
\<close>

theorem C8_retry_pass:
  assumes "retryFailedChunks R name chunks failedIndices config results options w = (results', w')"
    and "distinct failedIndices"
    and "\<forall>i\<in>set failedIndices. i < length results \<and> results ! i = None"
    and "m = (case getv (maxRetries options) of None \<Rightarrow> 3 | Some n \<Rightarrow> if n = 0 then 3 else n)"
    and "spec_retry (providerCall R name chunks config) m failedIndices (service w) = (hs, sF)"
  shows "map fst hs = failedIndices \<and> service w' = sF \<and>
         trace w' = trace w @ concat (map (\<lambda>(idx, h). retryEvents idx m 0 (map snd h)) hs) \<and>
         length results' = length results \<and>
         (\<forall>j. j \<notin> set failedIndices \<longrightarrow> results' ! j = results ! j) \<and>
         (\<forall>(idx, h)\<in>set hs.
            h \<noteq> [] \<and> length h \<le> m \<and>
            (\<forall>k<length h. snd (h ! k) = fst (providerCall R name chunks config idx (fst (h ! k)))) \<and>
            (\<forall>k. Suc k < length h \<longrightarrow> (\<exists>e. snd (h ! k) = Inl e)) \<and>
            (case snd (last h) of
               Inr r \<Rightarrow> results' ! idx = Some r
             | Inl e \<Rightarrow> length h = m \<and> results' ! idx = None))"
  using retryFailedChunks_histories [OF assms] by blast

text \<open>
  The retry pass with \<open>maxRetries = 4\<close> on a service that rejects two calls and then
  answers, for the failed index \<open>1\<close>: three calls, in the states \<open>0\<close>, \<open>1\<close> and
  \<open>2\<close> of the service, the third of which succeeds, and no fourth.
\<close>

theorem C8_retry_pass_witness:
  "retryFailedChunks (demoRemote 2) google_speech demoChunks [1] demoConfig [None, None]
      ((loadDefaultProcessingOptions ''tmp'')\<lparr> maxRetries := Present (Some 4) \<rparr>) demoWorld =
     ([None, Some (demoResult 10)],
      \<lparr> service = 3,
        trace = [LogRetryAttempt 1 1 4, Delay 1000, LogRetryAttempt 1 2 4, Delay 2000,
                 LogRetryAttempt 1 3 4, Delay 4000, LogRetrySucceeded 1 3] \<rparr>) \<and>
   distinct [1::nat] \<and>
   (1::nat) < length [None, None :: TranscriptionResult option] \<and>
   [None, None :: TranscriptionResult option] ! 1 = None \<and>
   (4::nat) =
     (case getv (maxRetries
             ((loadDefaultProcessingOptions ''tmp'')\<lparr> maxRetries := Present (Some 4) \<rparr>)) of
        None \<Rightarrow> 3 | Some n \<Rightarrow> if n = 0 then 3 else n) \<and>
   (\<exists>hs sF.
      spec_retry (providerCall (demoRemote 2) google_speech demoChunks demoConfig) 4 [1]
        (service demoWorld) = (hs, sF) \<and>
      hs = [(1, [(0, Inl (ChunkTranscriptionFailed ''unavailable'')),
                 (1, Inl (ChunkTranscriptionFailed ''unavailable'')),
                 (2, Inr (demoResult 10))])] \<and>
      map fst hs = [1] \<and>
      service \<lparr> service = 3 :: nat,
                trace = [LogRetryAttempt 1 1 4, Delay 1000, LogRetryAttempt 1 2 4, Delay 2000,
                         LogRetryAttempt 1 3 4, Delay 4000, LogRetrySucceeded 1 3] \<rparr> = sF \<and>
      trace \<lparr> service = 3 :: nat,
              trace = [LogRetryAttempt 1 1 4, Delay 1000, LogRetryAttempt 1 2 4, Delay 2000,
                       LogRetryAttempt 1 3 4, Delay 4000, LogRetrySucceeded 1 3] \<rparr> =
        trace demoWorld @ concat (map (\<lambda>(idx, h). retryEvents idx 4 0 (map snd h)) hs) \<and>
      length [None, Some (demoResult 10)] = length [None, None :: TranscriptionResult option] \<and>
      (\<forall>j. j \<notin> set [1::nat] \<longrightarrow> [None, Some (demoResult 10)] ! j = [None, None] ! j) \<and>
      (\<forall>(idx, h)\<in>set hs.
         h \<noteq> [] \<and> length h \<le> 4 \<and>
         (\<forall>k<length h. snd (h ! k) =
            fst (providerCall (demoRemote 2) google_speech demoChunks demoConfig idx (fst (h ! k)))) \<and>
         (\<forall>k. Suc k < length h \<longrightarrow> (\<exists>e. snd (h ! k) = Inl e)) \<and>
         (case snd (last h) of
            Inr r \<Rightarrow> [None, Some (demoResult 10)] ! idx = Some r
          | Inl e \<Rightarrow> length h = 4 \<and> [None, Some (demoResult 10)] ! idx = None)))"
proof -
  have d: "distinct [1::nat]" by simp
  have n: "\<forall>i\<in>set [1::nat]. i < length [None, None :: TranscriptionResult option] \<and>
        [None, None :: TranscriptionResult option] ! i = None" by simp
  have m: "(4::nat) =
     (case getv (maxRetries
             ((loadDefaultProcessingOptions ''tmp'')\<lparr> maxRetries := Present (Some 4) \<rparr>)) of
        None \<Rightarrow> 3 | Some n \<Rightarrow> if n = 0 then 3 else n)"
    by simp
  have h1: "(1::nat) < length [None, None :: TranscriptionResult option]" by simp
  have h2: "[None, None :: TranscriptionResult option] ! 1 = None" by simp
  note c = C8_retry_pass [OF demo_retry d n m demo_histories]
  show ?thesis
    apply (intro conjI)
         apply (rule demo_retry)
        apply (rule d)
       apply (rule h1)
      apply (rule h2)
     apply (rule m)
    apply (rule exI, rule exI, rule conjI, rule demo_histories, rule conjI, rule refl, rule c)
    done
qed

section \<open>Properties of the pipeline\<close>

subsection \<open>Offsets in the merged result\<close>

lemma validResultsOf_member:
  assumes "i < length results" and "results ! i = Some r"
  shows "r \<in> set (validResultsOf results)"
proof -
  from assms have "Some r \<in> set results" by (metis nth_mem)
  then show ?thesis by (force simp: validResultsOf_def)
qed

lemma mergeResults_words_member:
  assumes "r \<in> set results" and "TranscriptionResult.words r = Some ws" and "x \<in> set ws"
  shows "\<exists>merged. TranscriptionResult.words (mergeResults results) = Some merged \<and> x \<in> set merged"
  using assms by (force simp: mergeResults_words)

lemma transcribeChunks_merged:
  assumes "resultsTable R name singleton chunks config w = (results, w')"
    and "validResultsOf results \<noteq> []"
  shows "fst (transcribeChunks R name singleton chunks config w) =
           Inr (mergeResults (validResultsOf results))"
  using assms by (simp add: transcribeChunks_def Let_def)

lemma providerCall_Inr:
  assumes "fst (providerCall R name chunks config i s) = Inr r" and "i < length chunks"
  shows "\<exists>parsed. parsedResponse R name (chunks ! i) config s = Some parsed \<and>
                   r = adjustTimestamps (chunks ! i) parsed"
proof -
  obtain res w1 where t: "transcribeChunk R name (chunks ! i) config \<lparr> service = s, trace = [] \<rparr> = (res, w1)"
    by (cases "transcribeChunk R name (chunks ! i) config \<lparr> service = s, trace = [] \<rparr>")
  with assms have "res = Inr r" by (simp add: providerCall_def transcribeChunkAt_def)
  with t transcribeChunk_Inr [of R name "chunks ! i" config "\<lparr> service = s, trace = [] \<rparr>" r w1]
  show ?thesis by simp
qed

lemma resultsTable_slot:
  assumes sweep: "dispatchLoop R name singleton config chunks 0 (replicate (length chunks) None) []
             (emitIf (truthy (verbose singleton))
                (LogProcessing (length chunks) (numOr (maxConcurrentChunks singleton) 3)) w) =
           (results1, failedChunks, w1)"
    and table: "resultsTable R name singleton chunks config w = (results, w')"
    and i: "i < length chunks"
    and m: "m = (case getv (maxRetries singleton) of None \<Rightarrow> 3 | Some n \<Rightarrow> if n = 0 then 3 else n)"
    and hist: "spec_retry (providerCall R name chunks config) m failedChunks (service w1) = (hs, sF)"
    and ok: "(s = sweepState (providerCall R name chunks config) i (service w) \<and>
              fst (providerCall R name chunks config i s) = Inr r)
           \<or> (truthy (ProcessingOptions.retryFailedChunks singleton) \<and>
              (\<exists>h. (i, h) \<in> set hs \<and> h \<noteq> [] \<and> last h = (s, Inr r)))"
  shows "length results = length chunks \<and> results ! i = Some r \<and>
         fst (providerCall R name chunks config i s) = Inr r"
proof -
  let ?call = "providerCall R name chunks config"
  let ?w0 = "emitIf (truthy (verbose singleton))
                (LogProcessing (length chunks) (numOr (maxConcurrentChunks singleton) 3)) w"
  have sv0: "service ?w0 = service w" by (simp add: emitIf_def emit_def)
  note sw = dispatchLoop_sweep [OF sweep]
  from dispatchLoop_failed_inv [OF sweep] have len1: "length results1 = length chunks"
    and dist: "distinct failedChunks"
    and none: "\<forall>j\<in>set failedChunks. j < length results1 \<and> results1 ! j = None"
    by simp_all
  show ?thesis
  proof (cases "truthy (ProcessingOptions.retryFailedChunks singleton) \<and> failedChunks \<noteq> []")
    case False
    with table sweep have eq: "results = results1" by (simp add: resultsTable_def Let_def)
    from ok show ?thesis
    proof
      assume a: "s = sweepState ?call i (service w) \<and> fst (?call i s) = Inr r"
      then have c: "fst (?call i s) = Inr r"
        and c': "fst (?call i (sweepState ?call i (service w))) = Inr r" by auto
      from sw(2) [OF i] sv0 c' have "results1 ! i = Some r" by (simp add: sweepSlot_def)
      with eq len1 c show ?thesis by simp
    next
      assume b: "truthy (ProcessingOptions.retryFailedChunks singleton) \<and>
              (\<exists>h. (i, h) \<in> set hs \<and> h \<noteq> [] \<and> last h = (s, Inr r))"
      with False have "failedChunks = []" by simp
      with hist have "hs = []" by simp
      with b show ?thesis by simp
    qed
  next
    case True
    with table sweep have rf: "retryFailedChunks R name chunks failedChunks config results1 singleton
        (emit (LogRetrying (length failedChunks)) w1) = (results, w')"
      by (simp add: resultsTable_def Let_def)
    have hist': "spec_retry ?call m failedChunks
        (service (emit (LogRetrying (length failedChunks)) w1)) = (hs, sF)"
      using hist by (simp add: emit_def)
    note rt = retryFailedChunks_histories [OF rf dist none m hist']
    from rt(4) len1 have len: "length results = length chunks" by simp
    from ok show ?thesis
    proof
      assume a: "s = sweepState ?call i (service w) \<and> fst (?call i s) = Inr r"
      then have c: "fst (?call i s) = Inr r"
        and c': "fst (?call i (sweepState ?call i (service w))) = Inr r" by auto
      from sw(2) [OF i] sv0 c' have r1: "results1 ! i = Some r" by (simp add: sweepSlot_def)
      with none have "i \<notin> set failedChunks" by auto
      from rt(5) [OF this] r1 len c show ?thesis by simp
    next
      assume b: "truthy (ProcessingOptions.retryFailedChunks singleton) \<and>
              (\<exists>h. (i, h) \<in> set hs \<and> h \<noteq> [] \<and> last h = (s, Inr r))"
      then obtain h where h: "(i, h) \<in> set hs" "h \<noteq> []" "last h = (s, Inr r)" by blast
      from rt(6) [OF h(1)] h(3)
      have slot: "results ! i = Some r"
        and calls: "\<forall>k<length h. snd (h ! k) = fst (?call i (fst (h ! k)))" by simp_all
      from h(2) have "length h - 1 < length h" by simp
      with calls have "snd (h ! (length h - 1)) = fst (?call i (fst (h ! (length h - 1))))"
        by blast
      with h(2,3) have "fst (?call i s) = Inr r" by (simp add: last_conv_nth)
      with slot len show ?thesis by simp
    qed
  qed
qed

lemma demo_merged_words:
  "TranscriptionResult.words
     (mergeResults (validResultsOf [Some (demoResult 0), Some (demoResult 10)])) =
   Some [\<lparr> WordInfo.word = ''hello'', WordInfo.startTime = 2, WordInfo.endTime = 5 / 2,
           WordInfo.confidence = None, WordInfo.speakerTag = None \<rparr>,
         \<lparr> WordInfo.word = ''hello'', WordInfo.startTime = 12, WordInfo.endTime = 25 / 2,
           WordInfo.confidence = None, WordInfo.speakerTag = None \<rparr>]"
  by (simp add: mergeResults_words validResultsOf_def demoResult_def)

text \<open>
  Claim C4. In a run of \<^verbatim>\<open>transcribeChunks\<close>, let the transcription of chunk \<open>i\<close>
  succeed with the result \<open>r\<close> in the state \<open>s\<close> of the remote service: either the
  call of the sweep for chunk \<open>i\<close>, made in the state the sweep has reached after the
  calls for the chunks before it, returns \<open>r\<close>; or the retry pass is enabled and the
  last attempt it makes for chunk \<open>i\<close> is made in the state \<open>s\<close> and returns \<open>r\<close>.
  Then the slot \<open>i\<close> of the final table holds \<open>r\<close>; \<open>r\<close> is the parse of the response
  received in the state \<open>s\<close> with the times of its words increased by the
  \<open>startTime\<close> of the chunk; \<^verbatim>\<open>transcribeChunks\<close> returns the merge of the present
  slots; and every word of that parse is among the merged words with \<open>startTime\<close> and
  \<open>endTime\<close> increased by the \<open>startTime\<close> of the chunk.
\<close>

theorem C4_offsets_in_merge:
  assumes "dispatchLoop R name singleton config chunks 0 (replicate (length chunks) None) []
             (emitIf (truthy (verbose singleton))
                (LogProcessing (length chunks) (numOr (maxConcurrentChunks singleton) 3)) w) =
           (results1, failedChunks, w1)"
    and "resultsTable R name singleton chunks config w = (results, w')"
    and "i < length chunks"
    and "m = (case getv (maxRetries singleton) of None \<Rightarrow> 3 | Some n \<Rightarrow> if n = 0 then 3 else n)"
    and "spec_retry (providerCall R name chunks config) m failedChunks (service w1) = (hs, sF)"
    and "(s = sweepState (providerCall R name chunks config) i (service w) \<and>
          fst (providerCall R name chunks config i s) = Inr r)
       \<or> (truthy (ProcessingOptions.retryFailedChunks singleton) \<and>
          (\<exists>h. (i, h) \<in> set hs \<and> h \<noteq> [] \<and> last h = (s, Inr r)))"
  shows "results ! i = Some r \<and>
         (\<exists>parsed ps merged.
            parsedResponse R name (chunks ! i) config s = Some parsed \<and>
            TranscriptionResult.words parsed = Some ps \<and>
            r = adjustTimestamps (chunks ! i) parsed \<and>
            fst (transcribeChunks R name singleton chunks config w) =
              Inr (mergeResults (validResultsOf results)) \<and>
            TranscriptionResult.words (mergeResults (validResultsOf results)) = Some merged \<and>
            (\<forall>p\<in>set ps.
               p\<lparr> WordInfo.startTime := WordInfo.startTime p + AudioChunk.startTime (chunks ! i),
                  WordInfo.endTime := WordInfo.endTime p + AudioChunk.startTime (chunks ! i) \<rparr>
                 \<in> set merged))"
proof -
  from resultsTable_slot [OF assms]
  have len: "length results = length chunks" and slot: "results ! i = Some r"
    and call: "fst (providerCall R name chunks config i s) = Inr r" by simp_all
  from providerCall_Inr [OF call assms(3)] obtain parsed
    where p: "parsedResponse R name (chunks ! i) config s = Some parsed"
      and r: "r = adjustTimestamps (chunks ! i) parsed" by blast
  from parsedResponse_words [OF p] obtain ps
    where ps: "TranscriptionResult.words parsed = Some ps" by blast
  let ?sh = "\<lambda>p. p\<lparr> WordInfo.startTime := WordInfo.startTime p + AudioChunk.startTime (chunks ! i),
                      WordInfo.endTime := WordInfo.endTime p + AudioChunk.startTime (chunks ! i) \<rparr>"
  from adjustTimestamps_words [OF ps] r
  have wr: "TranscriptionResult.words r = Some (map ?sh ps)" by simp
  have mem: "r \<in> set (validResultsOf results)"
    using validResultsOf_member assms(3) slot len by simp
  then have ne: "validResultsOf results \<noteq> []" by auto
  obtain merged where m: "TranscriptionResult.words (mergeResults (validResultsOf results)) = Some merged"
    by (simp add: mergeResults_words)
  have "\<forall>p\<in>set ps. ?sh p \<in> set merged"
  proof
    fix p assume "p \<in> set ps"
    then have "?sh p \<in> set (map ?sh ps)" by simp
    from mergeResults_words_member [OF mem wr this] m show "?sh p \<in> set merged" by simp
  qed
  with slot p ps r m transcribeChunks_merged [OF assms(2) ne] show ?thesis by blast
qed

text \<open>
  The example of the claim, on a service that rejects two calls and then answers, with
  the retry pass enabled: both chunks fail in the sweep, the retry for the chunk that
  starts at \<open>10.0\<close> succeeds in the state \<open>3\<close> of the service, and its word at
  \<open>2.0\<close> seconds is in the merged result at \<open>12.0\<close>.
\<close>

theorem C4_offsets_in_merge_witness:
  "dispatchLoop (demoRemote 2) google_speech demoRetryOptions demoConfig demoChunks 0
      (replicate (length demoChunks) None) []
      (emitIf (truthy (verbose demoRetryOptions))
         (LogProcessing (length demoChunks) (numOr (maxConcurrentChunks demoRetryOptions) 3))
         demoWorld) =
     ([None, None], [0, 1],
      \<lparr> service = 2,
        trace = [LogChunkFailed 0 (ChunkTranscriptionFailed ''unavailable''),
                 LogChunkFailed 1 (ChunkTranscriptionFailed ''unavailable'')] \<rparr>) \<and>
   resultsTable (demoRemote 2) google_speech demoRetryOptions demoChunks demoConfig demoWorld =
     ([Some (demoResult 0), Some (demoResult 10)],
      \<lparr> service = 4,
        trace = [LogChunkFailed 0 (ChunkTranscriptionFailed ''unavailable''),
                 LogChunkFailed 1 (ChunkTranscriptionFailed ''unavailable''),
                 LogRetrying 2,
                 LogRetryAttempt 0 1 3, Delay 1000, LogRetrySucceeded 0 1,
                 LogRetryAttempt 1 1 3, Delay 1000, LogRetrySucceeded 1 1] \<rparr>) \<and>
   (1::nat) < length demoChunks \<and>
   (3::nat) = (case getv (maxRetries demoRetryOptions) of
                 None \<Rightarrow> 3 | Some n \<Rightarrow> if n = 0 then 3 else n) \<and>
   spec_retry (providerCall (demoRemote 2) google_speech demoChunks demoConfig) 3 [0, 1]
      (service \<lparr> service = 2 :: nat,
                 trace = [LogChunkFailed 0 (ChunkTranscriptionFailed ''unavailable''),
                          LogChunkFailed 1 (ChunkTranscriptionFailed ''unavailable'')] \<rparr>) =
     ([(0, [(2, Inr (demoResult 0))]), (1, [(3, Inr (demoResult 10))])], 4) \<and>
   truthy (ProcessingOptions.retryFailedChunks demoRetryOptions) \<and>
   (1, [(3, Inr (demoResult 10))]) \<in>
      set [(0::nat, [(2::nat, Inr (demoResult 0))]), (1, [(3, Inr (demoResult 10))])] \<and>
   last [(3::nat, Inr (demoResult 10) :: error + TranscriptionResult)] = (3, Inr (demoResult 10)) \<and>
   [Some (demoResult 0), Some (demoResult 10)] ! 1 = Some (demoResult 10) \<and>
   (\<exists>parsed ps merged.
      parsedResponse (demoRemote 2) google_speech (demoChunks ! 1) demoConfig 3 = Some parsed \<and>
      TranscriptionResult.words parsed = Some ps \<and>
      demoResult 10 = adjustTimestamps (demoChunks ! 1) parsed \<and>
      fst (transcribeChunks (demoRemote 2) google_speech demoRetryOptions demoChunks demoConfig
             demoWorld) =
        Inr (mergeResults (validResultsOf [Some (demoResult 0), Some (demoResult 10)])) \<and>
      TranscriptionResult.words
        (mergeResults (validResultsOf [Some (demoResult 0), Some (demoResult 10)])) = Some merged \<and>
      (\<forall>p\<in>set ps.
          p\<lparr> WordInfo.startTime := WordInfo.startTime p + AudioChunk.startTime (demoChunks ! 1),
             WordInfo.endTime := WordInfo.endTime p + AudioChunk.startTime (demoChunks ! 1) \<rparr>
            \<in> set merged)) \<and>
   AudioChunk.startTime (demoChunks ! 1) = 10 \<and>
   parsedResponse (demoRemote 2) google_speech (demoChunks ! 1) demoConfig 3 =
     Some (g_processResponse demoResponse) \<and>
   TranscriptionResult.words (g_processResponse demoResponse) =
     Some [\<lparr> WordInfo.word = ''hello'', WordInfo.startTime = 2, WordInfo.endTime = 5 / 2,
             WordInfo.confidence = None, WordInfo.speakerTag = None \<rparr>] \<and>
   TranscriptionResult.words
     (mergeResults (validResultsOf [Some (demoResult 0), Some (demoResult 10)])) =
     Some [\<lparr> WordInfo.word = ''hello'', WordInfo.startTime = 2, WordInfo.endTime = 5 / 2,
             WordInfo.confidence = None, WordInfo.speakerTag = None \<rparr>,
           \<lparr> WordInfo.word = ''hello'', WordInfo.startTime = 12, WordInfo.endTime = 25 / 2,
             WordInfo.confidence = None, WordInfo.speakerTag = None \<rparr>]"
proof -
  have l: "(1::nat) < length demoChunks" and s: "AudioChunk.startTime (demoChunks ! 1) = 10"
    by (simp_all add: demoChunks_def)
  have m: "(3::nat) = (case getv (maxRetries demoRetryOptions) of
                 None \<Rightarrow> 3 | Some n \<Rightarrow> if n = 0 then 3 else n)"
    by (simp add: demoRetryOptions_def loadDefaultProcessingOptions_def)
  have t: "truthy (ProcessingOptions.retryFailedChunks demoRetryOptions)"
    by (simp add: truthy_def demoRetryOptions_def)
  have mem: "(1, [(3, Inr (demoResult 10))]) \<in>
      set [(0::nat, [(2::nat, Inr (demoResult 0))]), (1, [(3, Inr (demoResult 10))])]" by simp
  have la: "last [(3::nat, Inr (demoResult 10) :: error + TranscriptionResult)] =
      (3, Inr (demoResult 10))" by simp
  have ok: "((3::nat) = sweepState (providerCall (demoRemote 2) google_speech demoChunks demoConfig) 1
                  (service demoWorld) \<and>
          fst (providerCall (demoRemote 2) google_speech demoChunks demoConfig 1 3) =
            Inr (demoResult 10))
       \<or> (truthy (ProcessingOptions.retryFailedChunks demoRetryOptions) \<and>
          (\<exists>h. (1, h) \<in> set [(0::nat, [(2::nat, Inr (demoResult 0))]), (1, [(3, Inr (demoResult 10))])] \<and>
               h \<noteq> [] \<and> last h = (3, Inr (demoResult 10))))"
    using t by simp
  have pr: "parsedResponse (demoRemote 2) google_speech (demoChunks ! 1) demoConfig 3 =
     Some (g_processResponse demoResponse)"
    by (simp add: parsedResponse_def demoRemote_def)
  have p: "TranscriptionResult.words (g_processResponse demoResponse) =
     Some [\<lparr> WordInfo.word = ''hello'', WordInfo.startTime = 2, WordInfo.endTime = 5 / 2,
             WordInfo.confidence = None, WordInfo.speakerTag = None \<rparr>]"
    by (simp add: g_processResponse_def demoResponse_def g_wordInfo_def)
  note c = C4_offsets_in_merge [OF demo_retry_sweep demo_retry_table l m demo_retry_histories ok]
  from c have c1: "[Some (demoResult 0), Some (demoResult 10)] ! 1 = Some (demoResult 10)"
    and c2: "\<exists>parsed ps merged.
      parsedResponse (demoRemote 2) google_speech (demoChunks ! 1) demoConfig 3 = Some parsed \<and>
      TranscriptionResult.words parsed = Some ps \<and>
      demoResult 10 = adjustTimestamps (demoChunks ! 1) parsed \<and>
      fst (transcribeChunks (demoRemote 2) google_speech demoRetryOptions demoChunks demoConfig
             demoWorld) =
        Inr (mergeResults (validResultsOf [Some (demoResult 0), Some (demoResult 10)])) \<and>
      TranscriptionResult.words
        (mergeResults (validResultsOf [Some (demoResult 0), Some (demoResult 10)])) = Some merged \<and>
      (\<forall>p\<in>set ps.
          p\<lparr> WordInfo.startTime := WordInfo.startTime p + AudioChunk.startTime (demoChunks ! 1),
             WordInfo.endTime := WordInfo.endTime p + AudioChunk.startTime (demoChunks ! 1) \<rparr>
            \<in> set merged)"
    by (rule conjunct1, rule conjunct2)
  show ?thesis
    by (intro conjI; (rule demo_retry_sweep demo_retry_table l m demo_retry_histories t mem la
          c1 c2 s pr p demo_merged_words))
qed

subsection \<open>No chunk succeeds\<close>

text \<open>The dispatch and the retry pass write no output file.\<close>

lemma runBatch_nowrite:
  assumes "runBatch R name verb config pairs failed w = (brs, failed', w')"
  shows "filter isWriteFile (trace w') = filter isWriteFile (trace w)"
  using assms
proof (induction pairs arbitrary: failed w brs failed' w')
  case Nil
  then show ?case by simp
next
  case (Cons pr pairs)
  obtain i c where pr: "pr = (i, c)" by (cases pr)
  obtain res w1 where call: "transcribeChunk R name c config w = (res, w1)"
    by (cases "transcribeChunk R name c config w")
  from transcribeChunk_trace [OF call] have t1: "trace w1 = trace w" .
  show ?case
  proof (cases res)
    case (Inr result)
    obtain brs1 f1 w2 where rb: "runBatch R name verb config pairs failed
        (emitIf verb (LogChunkCompleted i) w1) = (brs1, f1, w2)"
      by (metis prod_cases3)
    from Cons.prems pr call Inr rb have "w' = w2" by simp
    with Cons.IH [OF rb] t1 show ?thesis by simp
  next
    case (Inl e)
    obtain brs1 f1 w2 where rb: "runBatch R name verb config pairs (failed @ [i])
        (emit (LogChunkFailed i e) w1) = (brs1, f1, w2)"
      by (metis prod_cases3)
    from Cons.prems pr call Inl rb have "w' = w2" by simp
    with Cons.IH [OF rb] t1 show ?thesis by simp
  qed
qed

lemma dispatchLoop_nowrite:
  assumes "dispatchLoop R name options config chunks i results failed w = (results', failed', w')"
  shows "filter isWriteFile (trace w') = filter isWriteFile (trace w)"
  using assms
proof (induction R name options config chunks i results failed w rule: dispatchLoop.induct)
  case (1 R name options config chunks i results failedChunks w)
  show ?case
  proof (cases "i < length chunks")
    case False
    with "1.prems" have "w' = w" by (subst (asm) dispatchLoop.simps) simp
    then show ?thesis by simp
  next
    case True
    let ?m = "numOr (maxConcurrentChunks options) 3"
    let ?batch = "take (min (i + ?m) (length chunks) - i) (drop i chunks)"
    let ?idx = "map (\<lambda>idx. i + idx) [0..<length ?batch]"
    obtain brs f1 w1 where rb: "runBatch R name (truthy (verbose options)) config
        (zip ?idx ?batch) failedChunks w = (brs, f1, w1)"
      by (metis prod_cases3)
    from "1.prems" True rb
    have "dispatchLoop R name options config chunks (i + ?m) (storeResults results brs) f1
            (emitIf (i + ?m < length chunks) (Delay 100) w1) = (results', failed', w')"
      by (subst (asm) dispatchLoop.simps) (simp add: Let_def)
    from "1.IH" [OF True refl refl refl rb [symmetric] refl this] runBatch_nowrite [OF rb]
    show ?thesis by simp
  qed
qed

lemma retryChunk_nowrite:
  assumes "retryChunk R name chunks config m idx rc results w = (results', w')"
  shows "filter isWriteFile (trace w') = filter isWriteFile (trace w)"
  using assms
proof (induction R name chunks config m idx rc results w rule: retryChunk.induct)
  case (1 R name chunks config m idx rc results w)
  show ?case
  proof (cases "rc < m")
    case False
    with "1.prems" have "w' = w" by (subst (asm) retryChunk.simps) simp
    then show ?thesis by simp
  next
    case True
    let ?w2 = "emit (Delay (2 ^ rc * 1000)) (emit (LogRetryAttempt idx (rc + 1) m) w)"
    obtain res w3 where call: "transcribeChunkAt R name chunks idx config ?w2 = (res, w3)"
      by (cases "transcribeChunkAt R name chunks idx config ?w2")
    from transcribeChunkAt_trace [OF call] have tr3: "trace w3 = trace ?w2" .
    show ?thesis
    proof (cases res)
      case (Inr r)
      from "1.prems" True call Inr
      have "w' = emit (LogRetrySucceeded idx (rc + 1)) w3"
        by (subst (asm) retryChunk.simps) simp
      with tr3 show ?thesis by simp
    next
      case (Inl e)
      let ?w4 = "emitIf (rc + 1 \<ge> m) (LogRetryExhausted idx m e) w3"
      from "1.prems" True call Inl
      have rec: "retryChunk R name chunks config m idx (rc + 1) results ?w4 = (results', w')"
        by (subst (asm) retryChunk.simps) simp
      from "1.IH" [OF True call [symmetric] Inl rec] tr3 show ?thesis by simp
    qed
  qed
qed

lemma retryFailedChunks_nowrite:
  assumes "retryFailedChunks R name chunks idxs config results options w = (results', w')"
  shows "filter isWriteFile (trace w') = filter isWriteFile (trace w)"
proof -
  have "foldl (\<lambda>(rs, w') chunkIndex. retryChunk R name chunks config m chunkIndex 0 rs w')
          (results, w) idxs = (results', w') \<Longrightarrow>
        filter isWriteFile (trace w') = filter isWriteFile (trace w)" for m
  proof (induction idxs arbitrary: results w)
    case Nil
    then show ?case by simp
  next
    case (Cons i0 rest)
    obtain r1 w1 where one: "retryChunk R name chunks config m i0 0 results w = (r1, w1)"
      by (cases "retryChunk R name chunks config m i0 0 results w")
    from Cons.prems one
    have "foldl (\<lambda>(rs, w') chunkIndex. retryChunk R name chunks config m chunkIndex 0 rs w')
            (r1, w1) rest = (results', w')" by simp
    from Cons.IH [OF this] retryChunk_nowrite [OF one] show ?case by simp
  qed
  with assms show ?thesis by (simp add: retryFailedChunks_def)
qed

lemma resultsTable_nowrite:
  assumes "resultsTable R name singleton chunks config w = (results, w')"
  shows "filter isWriteFile (trace w') = filter isWriteFile (trace w)"
proof -
  let ?w0 = "emitIf (truthy (verbose singleton))
               (LogProcessing (length chunks) (numOr (maxConcurrentChunks singleton) 3)) w"
  obtain r1 f1 w1 where d: "dispatchLoop R name singleton config chunks 0
      (replicate (length chunks) None) [] ?w0 = (r1, f1, w1)"
    by (metis prod_cases3)
  from dispatchLoop_nowrite [OF d]
  have t1: "filter isWriteFile (trace w1) = filter isWriteFile (trace w)" by simp
  show ?thesis
  proof (cases "truthy (ProcessingOptions.retryFailedChunks singleton) \<and> f1 \<noteq> []")
    case False
    with assms d have "w' = w1" by (auto simp: resultsTable_def Let_def)
    with t1 show ?thesis by simp
  next
    case True
    with assms d have "retryFailedChunks R name chunks f1 config r1 singleton
        (emit (LogRetrying (length f1)) w1) = (results, w')"
      by (auto simp: resultsTable_def Let_def)
    from retryFailedChunks_nowrite [OF this] t1 show ?thesis by simp
  qed
qed

lemma validResultsOf_empty:
  assumes "\<forall>r\<in>set results. r = None"
  shows "validResultsOf results = []"
  using assms by (induction results) (simp_all add: validResultsOf_def)

lemma transcribeChunks_all_failed:
  assumes "resultsTable R name singleton chunks config w = (results, w')"
    and "\<forall>r\<in>set results. r = None"
  shows "transcribeChunks R name singleton chunks config w = (Inl AllChunksFailed, w')"
  using assms validResultsOf_empty [OF assms(2)] by (simp add: transcribeChunks_def)

text \<open>
  Claim C9. Take a run of \<^verbatim>\<open>transcribeFile\<close> that reaches \<^verbatim>\<open>transcribeChunks\<close>: the input
  is valid, the audio is extracted, its duration exceeds the chunk duration and it is
  split into \<open>chunks\<close>. If the table at the end of the dispatch and retry stages has no
  present entry, then \<^verbatim>\<open>transcribeFile\<close> fails with the error of
  \<^verbatim>\<open>'All chunks failed to transcribe'\<close>: no result is returned, and the trace of the
  final world holds no write of an output file beyond those of the initial world.
\<close>

theorem C9_all_chunks_failed:
  assumes "validateAudioFile (audioProcessor E) inputPath = None"
    and "extractAudio (audioProcessor E) inputPath = Inr audioPath"
    and "getAudioDuration (audioProcessor E) audioPath = Inr duration"
    and "options = (case processingOptions of None \<Rightarrow> singleton | Some po \<Rightarrow> spread singleton po)"
    and "duration > numOr (chunkDuration options) 59"
    and "splitAudioIntoChunks (audioProcessor E) audioPath
           (getv (chunkDuration options)) (getv (overlap options)) = Some (Inr chunks)"
    and "resultsTable (remote E) name singleton chunks
           (transcriptionConfig\<lparr> encoding := Some (detectEncoding (audioProcessor E) audioPath),
                                  sampleRateHertz := Some 16000 \<rparr>)
           (emitIf (truthy (verbose options)) (LogSplit (length chunks))
              (emitIf (truthy (verbose options))
                 (LogAudioInfo audioPath (detectEncoding (audioProcessor E) audioPath) duration) w))
         = (results, w')"
    and "\<forall>r\<in>set results. r = None"
  shows "transcribeFile E singleton name inputPath transcriptionConfig processingOptions w =
           Some (Inl AllChunksFailed, emit Cleanup w') \<and>
         filter isWriteFile (trace (emit Cleanup w')) = filter isWriteFile (trace w)"
proof
  from transcribeChunks_all_failed [OF assms(7) assms(8)] assms(1-6)
  show "transcribeFile E singleton name inputPath transcriptionConfig processingOptions w =
           Some (Inl AllChunksFailed, emit Cleanup w')"
    by (simp add: transcribeFile_def Let_def finish_def)
next
  from resultsTable_nowrite [OF assms(7)]
  show "filter isWriteFile (trace (emit Cleanup w')) = filter isWriteFile (trace w)"
    by simp
qed

theorem C9_all_chunks_failed_witness:
  "transcribeFile (demoEnv 100 0) (loadDefaultProcessingOptions ''tmp'') vertex_ai ''a.wav''
      demoConfig (Some demoOptions) demoWorld =
     Some (Inl AllChunksFailed,
           \<lparr> service = 2,
             trace = [LogChunkFailed 0 (ChunkTranscriptionFailed ''unavailable''),
                      LogChunkFailed 1 (ChunkTranscriptionFailed ''unavailable''),
                      Cleanup] \<rparr>) \<and>
   getv (outputPath (spread (loadDefaultProcessingOptions ''tmp'') demoOptions)) = Some ''out.txt'' \<and>
   filter isWriteFile
     [LogChunkFailed 0 (ChunkTranscriptionFailed ''unavailable''),
      LogChunkFailed 1 (ChunkTranscriptionFailed ''unavailable''), Cleanup]
     = filter isWriteFile (trace demoWorld)"
proof -
  let ?E = "demoEnv 100 0"
  let ?o = "spread (loadDefaultProcessingOptions ''tmp'') demoOptions"
  have a1: "validateAudioFile (audioProcessor ?E) ''a.wav'' = None"
    and a2: "extractAudio (audioProcessor ?E) ''a.wav'' = Inr ''a.wav''"
    and a3: "getAudioDuration (audioProcessor ?E) ''a.wav'' = Inr 100"
    by (simp_all add: demoEnv_def demoAudio_def)
  have a4: "?o = (case Some demoOptions of None \<Rightarrow> loadDefaultProcessingOptions ''tmp''
                   | Some po \<Rightarrow> spread (loadDefaultProcessingOptions ''tmp'') po)" by simp
  have cd: "chunkDuration ?o = Present (Some 59)" and ov: "overlap ?o = Present (Some 1)"
    and vb: "\<not> truthy (verbose ?o)" and op: "getv (outputPath ?o) = Some ''out.txt''"
    by (simp_all add: spread_def demoOptions_def loadDefaultProcessingOptions_def truthy_def)
  have a5: "(100::rat) > numOr (chunkDuration ?o) 59" by (simp add: cd numOr_def)
  have a6: "splitAudioIntoChunks (audioProcessor ?E) ''a.wav''
           (getv (chunkDuration ?o)) (getv (overlap ?o)) =
        Some (Inr [\<lparr>buffer = [], startTime = 0, endTime = 59, index = 0\<rparr>,
                   \<lparr>buffer = ''x'', startTime = 57, endTime = 100, index = 1\<rparr>])"
    using demo_split_100 by (simp add: cd ov demoEnv_def)
  have a7: "resultsTable (remote ?E) vertex_ai (loadDefaultProcessingOptions ''tmp'')
           [\<lparr>buffer = [], startTime = 0, endTime = 59, index = 0\<rparr>,
            \<lparr>buffer = ''x'', startTime = 57, endTime = 100, index = 1\<rparr>]
           (demoConfig\<lparr> encoding := Some (detectEncoding (audioProcessor ?E) ''a.wav''),
                         sampleRateHertz := Some 16000 \<rparr>)
           (emitIf (truthy (verbose ?o))
              (LogSplit (length [\<lparr>buffer = [], startTime = 0, endTime = 59, index = 0\<rparr>,
                                 \<lparr>buffer = ''x'', startTime = 57, endTime = 100, index = 1\<rparr>]))
              (emitIf (truthy (verbose ?o))
                 (LogAudioInfo ''a.wav'' (detectEncoding (audioProcessor ?E) ''a.wav'') 100) demoWorld))
         = ([None, None],
            \<lparr> service = 2,
              trace = [LogChunkFailed 0 (ChunkTranscriptionFailed ''unavailable''),
                       LogChunkFailed 1 (ChunkTranscriptionFailed ''unavailable'')] \<rparr>)"
    using demo_failed_table vb by (simp add: demoEnv_def demoAudio_def emitIf_def)
  have a8: "\<forall>r\<in>set [None, None :: TranscriptionResult option]. r = None" by simp
  from C9_all_chunks_failed [OF a1 a2 a3 a4 a5 a6 a7 a8] op show ?thesis
    by (simp add: emit_def)
qed

subsection \<open>The options of the dispatch and retry stages\<close>

lemma finish_ignores:
  "finish E (options\<lparr> maxConcurrentChunks := a, ProcessingOptions.retryFailedChunks := b,
                      maxRetries := c \<rparr>) rw = finish E options rw"
  by (simp add: finish_def split: prod.split sum.split option.split)

lemma spread_ignored_fields:
  "spread singleton (po\<lparr> maxConcurrentChunks := a, ProcessingOptions.retryFailedChunks := b,
                          maxRetries := c \<rparr>) =
   (spread singleton po)
     \<lparr> maxConcurrentChunks := spreadProp (maxConcurrentChunks singleton) a,
       ProcessingOptions.retryFailedChunks :=
         spreadProp (ProcessingOptions.retryFailedChunks singleton) b,
       maxRetries := spreadProp (maxRetries singleton) c \<rparr>"
  by (simp add: spread_def)

lemma cliProcessingOptions_ignored:
  "cliProcessingOptions singleton cd maxConcurrent noRetry v out fmt =
     (singleton\<lparr> chunkDuration := Present (Some cd), verbose := Present v,
                  outputPath := Present out, outputFormat := Present fmt \<rparr>)
       \<lparr> maxConcurrentChunks := Present (Some maxConcurrent),
         ProcessingOptions.retryFailedChunks := Present (Some (\<not> noRetry)),
         maxRetries := maxRetries singleton \<rparr>"
  by (simp add: cliProcessingOptions_def)

lemma transcribeFile_ignores:
  "transcribeFile E singleton name inputPath transcriptionConfig
     (Some (po\<lparr> maxConcurrentChunks := a, ProcessingOptions.retryFailedChunks := b,
                 maxRetries := c \<rparr>)) w =
   transcribeFile E singleton name inputPath transcriptionConfig (Some po) w"
  by (simp add: transcribeFile_def spread_ignored_fields finish_ignores Let_def
        cong: sum.case_cong option.case_cong if_cong)

text \<open>
  Claim C1. Two calls of \<^verbatim>\<open>transcribeFile\<close> whose \<open>processingOptions\<close> differ only in
  \<open>maxConcurrentChunks\<close>, \<open>retryFailedChunks\<close> and \<open>maxRetries\<close> have the same outcome:
  the same result or error, the same final state of the remote service and the same
  trace, or both do not return; so it is for two runs of the command line program that
  differ only in the flags for the concurrency and the retries. The dispatch and retry
  stages read the options of the singleton: with the default options of the singleton the batch size is \<open>3\<close>, the
  retry flag is not set, and the table of \<^verbatim>\<open>transcribeChunks\<close> is the one the dispatch
  loop leaves, without a retry pass.
\<close>

theorem C1_singleton_options:
  "transcribeFile E singleton name inputPath transcriptionConfig
     (Some (po\<lparr> maxConcurrentChunks := a, ProcessingOptions.retryFailedChunks := b,
                 maxRetries := c \<rparr>)) w =
   transcribeFile E singleton name inputPath transcriptionConfig
     (Some (po\<lparr> maxConcurrentChunks := a', ProcessingOptions.retryFailedChunks := b',
                 maxRetries := c' \<rparr>)) w
   \<and> transcribeFile E singleton name inputPath transcriptionConfig
       (Some (cliProcessingOptions singleton cd maxConcurrent noRetry v out fmt)) w =
     transcribeFile E singleton name inputPath transcriptionConfig
       (Some (cliProcessingOptions singleton cd maxConcurrent' noRetry' v out fmt)) w
   \<and> numOr (maxConcurrentChunks (loadDefaultProcessingOptions tmp)) 3 = 3
   \<and> truthy (ProcessingOptions.retryFailedChunks (loadDefaultProcessingOptions tmp)) = False
   \<and> resultsTable R name' (loadDefaultProcessingOptions tmp) chunks config w0 =
       (case dispatchLoop R name' (loadDefaultProcessingOptions tmp) config chunks 0
               (replicate (length chunks) None) [] w0 of
          (results, failedChunks, w1) \<Rightarrow> (results, w1))"
proof (intro conjI)
  show "transcribeFile E singleton name inputPath transcriptionConfig
     (Some (po\<lparr> maxConcurrentChunks := a, ProcessingOptions.retryFailedChunks := b,
                 maxRetries := c \<rparr>)) w =
   transcribeFile E singleton name inputPath transcriptionConfig
     (Some (po\<lparr> maxConcurrentChunks := a', ProcessingOptions.retryFailedChunks := b',
                 maxRetries := c' \<rparr>)) w"
    by (simp only: transcribeFile_ignores)
next
  show "transcribeFile E singleton name inputPath transcriptionConfig
       (Some (cliProcessingOptions singleton cd maxConcurrent noRetry v out fmt)) w =
     transcribeFile E singleton name inputPath transcriptionConfig
       (Some (cliProcessingOptions singleton cd maxConcurrent' noRetry' v out fmt)) w"
    by (simp only: cliProcessingOptions_ignored transcribeFile_ignores)
next
  show "numOr (maxConcurrentChunks (loadDefaultProcessingOptions tmp)) 3 = 3"
    by (simp add: loadDefaultProcessingOptions_def numOr_def)
next
  show d: "truthy (ProcessingOptions.retryFailedChunks (loadDefaultProcessingOptions tmp)) = False"
    by (simp add: loadDefaultProcessingOptions_def truthy_def)
  have v: "truthy (verbose (loadDefaultProcessingOptions tmp)) = False"
    by (simp add: loadDefaultProcessingOptions_def truthy_def)
  show "resultsTable R name' (loadDefaultProcessingOptions tmp) chunks config w0 =
       (case dispatchLoop R name' (loadDefaultProcessingOptions tmp) config chunks 0
               (replicate (length chunks) None) [] w0 of
          (results, failedChunks, w1) \<Rightarrow> (results, w1))"
    by (simp add: resultsTable_def d v emitIf_def Let_def)
qed

end
